theory Spec2Isabelle
  imports Complex_Main "HOL-Library.Multiset"
begin

section \<open>Python floats\<close>

text \<open>
  The engine computes with Python floats (IEEE doubles, with NaN and the infinities) and
  with the functions of the \<^verbatim>\<open>math\<close> module. Their values are not fixed here: a float
  is a value of a type \<open>'f\<close>, and every float operation of the source is a field of the
  record below, passed to each function as its first argument. Nothing is assumed about
  the fields; a theorem that needs a property of the arithmetic states it as a hypothesis.

  \<^item> \<open>flit\<close> is the float denoted by a decimal literal, and the conversion of an int
    operand of a float operation (\<^verbatim>\<open>25 * x\<close>, \<^verbatim>\<open>1 - y\<close>, \<^verbatim>\<open>x / 5\<close>);
  \<^item> \<open>fadd\<close>, \<open>fsub\<close>, \<open>fmul\<close>, \<open>fdiv\<close> are \<^verbatim>\<open>+ - * /\<close> with a float operand (every float
    division of the source is by a non-zero literal);
  \<^item> \<open>idiv\<close> is \<^verbatim>\<open>/\<close> on two ints (\<^verbatim>\<open>len(a) / len(b)\<close>, \<^verbatim>\<open>price_diff / 2\<close>), the float
    nearest to the quotient; the division by a zero length is a branch of the model;
  \<^item> \<open>fsquare\<close> is \<^verbatim>\<open>x ** 2\<close>, \<open>fless\<close> is \<^verbatim>\<open><\<close> (and \<^verbatim>\<open>a > b\<close> is \<open>fless b a\<close>);
  \<^item> \<open>fsin\<close>, \<open>fcos\<close>, \<open>fsqrt\<close> are \<^verbatim>\<open>math.sin\<close>, \<^verbatim>\<open>math.cos\<close>, \<^verbatim>\<open>math.sqrt\<close>, which raise
    ValueError outside their domain; \<open>fatan2\<close> and \<open>fradians\<close> are \<^verbatim>\<open>math.atan2\<close> and
    \<^verbatim>\<open>math.radians\<close>; \<open>fround\<close> is \<^verbatim>\<open>round(x, ndigits)\<close>.
\<close>

datatype py_error = ZeroDivisionError | KeyError | ValueError

record 'f arith =
  flit :: "real \<Rightarrow> 'f"
  fadd :: "'f \<Rightarrow> 'f \<Rightarrow> 'f"
  fsub :: "'f \<Rightarrow> 'f \<Rightarrow> 'f"
  fmul :: "'f \<Rightarrow> 'f \<Rightarrow> 'f"
  fdiv :: "'f \<Rightarrow> 'f \<Rightarrow> 'f"
  idiv :: "int \<Rightarrow> int \<Rightarrow> 'f"
  fsquare :: "'f \<Rightarrow> 'f"
  fless :: "'f \<Rightarrow> 'f \<Rightarrow> bool"
  fsin :: "'f \<Rightarrow> py_error + 'f"
  fcos :: "'f \<Rightarrow> py_error + 'f"
  fsqrt :: "'f \<Rightarrow> py_error + 'f"
  fatan2 :: "'f \<Rightarrow> 'f \<Rightarrow> 'f"
  fradians :: "'f \<Rightarrow> 'f"
  fround :: "'f \<Rightarrow> nat \<Rightarrow> 'f"

text \<open>\<^verbatim>\<open>max(0, x)\<close> keeps 0 unless \<^verbatim>\<open>x > 0\<close>; \<^verbatim>\<open>min(1, x)\<close> keeps 1 unless \<^verbatim>\<open>x < 1\<close>.\<close>

definition py_max0 :: "'f arith \<Rightarrow> 'f \<Rightarrow> 'f" where
  "py_max0 A x = (if fless A (flit A 0) x then x else flit A 0)"

definition py_min1 :: "'f arith \<Rightarrow> 'f \<Rightarrow> 'f" where
  "py_min1 A x = (if fless A x (flit A 1) then x else flit A 1)"

text \<open>\<^verbatim>\<open>xs[:n]\<close>: a negative \<open>n\<close> counts from the end.\<close>

definition py_slice_to :: "'a list \<Rightarrow> int \<Rightarrow> 'a list" where
  "py_slice_to xs n =
     (if 0 \<le> n then take (nat n) xs else take (length xs - nat (- n)) xs)"

text \<open>
  \<^verbatim>\<open>xs.sort(key=f, reverse=True)\<close>: descending by key, equal keys keep their order. The
  sort compares keys with \<^verbatim>\<open><\<close> only; the model is the stable insertion sort, which is
  the list every stable sort returns when \<^verbatim>\<open><\<close> is a strict weak order on the keys.
\<close>

fun insort_desc :: "'f arith \<Rightarrow> ('a \<Rightarrow> 'f) \<Rightarrow> 'a \<Rightarrow> 'a list \<Rightarrow> 'a list" where
  "insort_desc A f x [] = [x]"
| "insort_desc A f x (y # ys) =
     (if fless A (f x) (f y) then y # insort_desc A f x ys else x # y # ys)"

definition sort_desc :: "'f arith \<Rightarrow> ('a \<Rightarrow> 'f) \<Rightarrow> 'a list \<Rightarrow> 'a list" where
  "sort_desc A f xs = foldr (insort_desc A f) xs []"

section \<open>Data model (models.py)\<close>

text \<open>
  The pydantic classes of \<^verbatim>\<open>models.py\<close> become records. Field names are those of
  the source with a prefix where two classes share a name (\<^verbatim>\<open>id\<close>, \<^verbatim>\<open>name\<close>,
  \<^verbatim>\<open>latitude\<close>, \<^verbatim>\<open>longitude\<close>, \<^verbatim>\<open>score\<close>). The \<^verbatim>\<open>viewing_history\<close> dict maps a
  venue id to the seconds viewed, a number: an int there (as in the mock data) is the
  float it converts to in \<^verbatim>\<open>view_time / 60\<close>.
\<close>

record 'f User =
  u_id :: string
  u_name :: string
  u_latitude :: 'f
  u_longitude :: 'f
  interests :: "string list"
  preferred_price_range :: string
  viewing_history :: "string \<rightharpoonup> 'f"

record 'f Venue =
  v_id :: string
  v_name :: string
  category :: string
  v_latitude :: 'f
  v_longitude :: 'f
  price_range :: string
  tags :: "string list"
  description :: string

text \<open>
  \<^verbatim>\<open>shared_interests\<close> is built as \<^verbatim>\<open>list(set(..) & set(..))\<close>: a list of the
  distinct common tags in an order the source leaves to the hash seed. The model keeps
  the set.
\<close>

record 'f CompatibilityScore =
  user_id :: string
  user_name :: string
  c_score :: 'f
  shared_interests :: "string set"
  distance_km :: 'f

text \<open>
  A reason is an f-string of the source. The model keeps the template (the constructor)
  and the interpolated value, not the rendered text.
\<close>

datatype 'f reason =
    OnlyKmAway 'f
  | MatchesInterests "string set"
  | FitsBudget string
  | SpentViewing 'f
  | CompatibleFriends nat

record 'f VenueRecommendation =
  venue :: "'f Venue"
  r_score :: 'f
  reasons :: "'f reason list"
  interested_users :: "'f CompatibilityScore list"

section \<open>recommendation.py\<close>

subsection \<open>calculate_distance\<close>

text \<open>
  Line 15, the haversine term \<open>a\<close>. The calls are made in the order of the source, and
  the first that raises ends the computation.
\<close>

definition hav_a :: "'f arith \<Rightarrow> 'f \<Rightarrow> 'f \<Rightarrow> 'f \<Rightarrow> 'f \<Rightarrow> py_error + 'f" where
  "hav_a A lat1 lon1 lat2 lon2 =
     (let lat1_rad = fradians A lat1;
          lat2_rad = fradians A lat2;
          delta_lat = fradians A (fsub A lat2 lat1);
          delta_lon = fradians A (fsub A lon2 lon1)
      in case fsin A (fdiv A delta_lat (flit A 2)) of
           Inl e \<Rightarrow> Inl e
         | Inr s1 \<Rightarrow>
             (case fcos A lat1_rad of
                Inl e \<Rightarrow> Inl e
              | Inr c1 \<Rightarrow>
                  (case fcos A lat2_rad of
                     Inl e \<Rightarrow> Inl e
                   | Inr c2 \<Rightarrow>
                       (case fsin A (fdiv A delta_lon (flit A 2)) of
                          Inl e \<Rightarrow> Inl e
                        | Inr s2 \<Rightarrow>
                            Inr (fadd A (fsquare A s1)
                                        (fmul A (fmul A c1 c2) (fsquare A s2)))))))"

definition calculate_distance :: "'f arith \<Rightarrow> 'f \<Rightarrow> 'f \<Rightarrow> 'f \<Rightarrow> 'f \<Rightarrow> py_error + 'f" where
  "calculate_distance A lat1 lon1 lat2 lon2 =
     (let R = flit A 6371
      in case hav_a A lat1 lon1 lat2 lon2 of
           Inl e \<Rightarrow> Inl e
         | Inr a \<Rightarrow>
             (case fsqrt A a of
                Inl e \<Rightarrow> Inl e
              | Inr sa \<Rightarrow>
                  (case fsqrt A (fsub A (flit A 1) a) of
                     Inl e \<Rightarrow> Inl e
                   | Inr sb \<Rightarrow> Inr (fmul A R (fmul A (flit A 2) (fatan2 A sa sb))))))"

subsection \<open>calculate_user_compatibility\<close>

definition price_ranges :: "string \<rightharpoonup> int" where
  "price_ranges = [''budget'' \<mapsto> 1, ''moderate'' \<mapsto> 2, ''upscale'' \<mapsto> 3]"

definition calculate_user_compatibility ::
  "'f arith \<Rightarrow> 'f User \<Rightarrow> 'f User \<Rightarrow> py_error + 'f CompatibilityScore" where
  "calculate_user_compatibility A user1 user2 =
     (let shared = set (interests user1) \<inter> set (interests user2);
          denom = max (length (interests user1)) (length (interests user2))
      in if denom = 0 then Inl ZeroDivisionError
         else
           let interest_score = idiv A (int (card shared)) (int denom)
           in case calculate_distance A (u_latitude user1) (u_longitude user1)
                                        (u_latitude user2) (u_longitude user2) of
                Inl e \<Rightarrow> Inl e
              | Inr distance \<Rightarrow>
                  let distance_score =
                        py_max0 A (fsub A (flit A 1) (fdiv A distance (flit A 5)))
                  in case price_ranges (preferred_price_range user1) of
                       None \<Rightarrow> Inl KeyError
                     | Some p1 \<Rightarrow>
                         (case price_ranges (preferred_price_range user2) of
                            None \<Rightarrow> Inl KeyError
                          | Some p2 \<Rightarrow>
                              let price_diff = \<bar>p1 - p2\<bar>;
                                  price_score =
                                    py_max0 A (fsub A (flit A 1)
                                      (idiv A price_diff 2));
                                  final_score =
                                    fmul A (fadd A (fadd A (fmul A (flit A 0.4) interest_score)
                                                           (fmul A (flit A 0.3) distance_score))
                                                   (fmul A (flit A 0.3) price_score))
                                           (flit A 100)
                              in Inr \<lparr>user_id = u_id user2,
                                      user_name = u_name user2,
                                      c_score = fround A final_score 2,
                                      shared_interests = shared,
                                      distance_km = fround A distance 2\<rparr>))"

subsection \<open>recommend_venues\<close>

text \<open>
  The inner loop over \<^verbatim>\<open>all_users\<close> (lines 100 to 118): \<open>acc\<close> is the list
  \<^verbatim>\<open>interested_users\<close> built so far.
\<close>

fun collect_interested ::
  "'f arith \<Rightarrow> 'f User \<Rightarrow> 'f Venue \<Rightarrow> 'f User list \<Rightarrow> 'f CompatibilityScore list
   \<Rightarrow> py_error + 'f CompatibilityScore list" where
  "collect_interested A user vn [] acc = Inr acc"
| "collect_interested A user vn (other_user # rest) acc =
     (if u_id other_user \<noteq> u_id user then
        let uvi0 = flit A 0;
            uvi1 = (case viewing_history other_user (v_id vn) of
                      Some t \<Rightarrow> fadd A uvi0 (fdiv A t (flit A 60))
                    | None \<Rightarrow> uvi0);
            other_matching = set (interests other_user) \<inter> set (tags vn)
        in if length (tags vn) = 0 then Inl ZeroDivisionError
           else
             let uvi2 = fadd A uvi1 (idiv A (int (card other_matching))
                                            (int (length (tags vn))))
             in if fless A (flit A 0.3) uvi2 then
                  (case calculate_user_compatibility A user other_user of
                     Inl e \<Rightarrow> Inl e
                   | Inr compatibility \<Rightarrow>
                       if fless A (flit A 40) (c_score compatibility)
                       then collect_interested A user vn rest (acc @ [compatibility])
                       else collect_interested A user vn rest acc)
                else collect_interested A user vn rest acc
      else collect_interested A user vn rest acc)"

text \<open>The body of the loop over \<^verbatim>\<open>all_venues\<close> (lines 70 to 132).\<close>

definition score_venue ::
  "'f arith \<Rightarrow> 'f User \<Rightarrow> 'f User list \<Rightarrow> 'f Venue \<Rightarrow> py_error + 'f VenueRecommendation" where
  "score_venue A user all_users vn =
     (let score0 = flit A 0;
          reasons0 = []
      in case calculate_distance A (u_latitude user) (u_longitude user)
                                   (v_latitude vn) (v_longitude vn) of
           Inl e \<Rightarrow> Inl e
         | Inr distance \<Rightarrow>
             let distance_score = py_max0 A (fsub A (flit A 1) (fdiv A distance (flit A 3)));
                 score1 = fadd A score0 (fmul A (flit A 25) distance_score);
                 reasons1 = (if fless A distance (flit A 1)
                             then reasons0 @ [OnlyKmAway distance] else reasons0);
                 matching_tags = set (interests user) \<inter> set (tags vn);
                 interest_score = (if interests user \<noteq> []
                                   then idiv A (int (card matching_tags))
                                               (int (length (interests user)))
                                   else flit A 0);
                 score2 = fadd A score1 (fmul A (flit A 35) interest_score);
                 reasons2 = (if matching_tags \<noteq> {} then reasons1 @ [MatchesInterests matching_tags]
                             else reasons1);
                 score3 = (if price_range vn = preferred_price_range user
                           then fadd A score2 (flit A 15) else score2);
                 reasons3 = (if price_range vn = preferred_price_range user
                             then reasons2 @ [FitsBudget (price_range vn)] else reasons2);
                 score4 = (case viewing_history user (v_id vn) of
                             Some view_time \<Rightarrow>
                               fadd A score3
                                 (fmul A (flit A 25) (py_min1 A (fdiv A view_time (flit A 60))))
                           | None \<Rightarrow> score3);
                 reasons4 = (case viewing_history user (v_id vn) of
                               Some view_time \<Rightarrow> reasons3 @ [SpentViewing view_time]
                             | None \<Rightarrow> reasons3)
             in case collect_interested A user vn all_users [] of
                  Inl e \<Rightarrow> Inl e
                | Inr found \<Rightarrow>
                    let sorted_users = sort_desc A c_score found;
                        reasons5 = (if sorted_users \<noteq> []
                                    then reasons4 @ [CompatibleFriends (length (take 3 sorted_users))]
                                    else reasons4)
                    in Inr \<lparr>venue = vn,
                            r_score = fround A score4 2,
                            reasons = reasons5,
                            interested_users = take 5 sorted_users\<rparr>)"

text \<open>The loop over \<^verbatim>\<open>all_venues\<close>: \<open>acc\<close> is \<^verbatim>\<open>recommendations\<close> so far.\<close>

fun score_venues ::
  "'f arith \<Rightarrow> 'f User \<Rightarrow> 'f User list \<Rightarrow> 'f Venue list \<Rightarrow> 'f VenueRecommendation list
   \<Rightarrow> py_error + 'f VenueRecommendation list" where
  "score_venues A user all_users [] acc = Inr acc"
| "score_venues A user all_users (vn # rest) acc =
     (case score_venue A user all_users vn of
        Inl e \<Rightarrow> Inl e
      | Inr r \<Rightarrow> score_venues A user all_users rest (acc @ [r]))"

definition recommend_venues ::
  "'f arith \<Rightarrow> 'f User \<Rightarrow> 'f Venue list \<Rightarrow> 'f User list \<Rightarrow> int
   \<Rightarrow> py_error + 'f VenueRecommendation list" where
  "recommend_venues A user all_venues all_users top_n =
     (case score_venues A user all_users all_venues [] of
        Inl e \<Rightarrow> Inl e
      | Inr recommendations \<Rightarrow> Inr (py_slice_to (sort_desc A r_score recommendations) top_n))"

subsection \<open>recommend_people\<close>

fun collect_compatibilities ::
  "'f arith \<Rightarrow> 'f User \<Rightarrow> 'f User list \<Rightarrow> 'f CompatibilityScore list
   \<Rightarrow> py_error + 'f CompatibilityScore list" where
  "collect_compatibilities A user [] acc = Inr acc"
| "collect_compatibilities A user (other_user # rest) acc =
     (if u_id other_user \<noteq> u_id user then
        (case calculate_user_compatibility A user other_user of
           Inl e \<Rightarrow> Inl e
         | Inr compatibility \<Rightarrow> collect_compatibilities A user rest (acc @ [compatibility]))
      else collect_compatibilities A user rest acc)"

definition recommend_people ::
  "'f arith \<Rightarrow> 'f User \<Rightarrow> 'f User list \<Rightarrow> int \<Rightarrow> py_error + 'f CompatibilityScore list" where
  "recommend_people A user all_users top_n =
     (case collect_compatibilities A user all_users [] of
        Inl e \<Rightarrow> Inl e
      | Inr compatibilities \<Rightarrow> Inr (py_slice_to (sort_desc A c_score compatibilities) top_n))"

section \<open>mock_data.py\<close>

text \<open>The users and venues of \<^verbatim>\<open>mock_data.py\<close>; every number is a literal of the source.\<close>

definition user1 :: "'f arith \<Rightarrow> 'f User" where
  "user1 A = \<lparr>u_id = ''user1'', u_name = ''Alex Chen'',
               u_latitude = flit A 40.7580, u_longitude = flit A (- 73.9855),
               interests = [''coffee'', ''art'', ''music'', ''indie''],
               preferred_price_range = ''moderate'',
               viewing_history = [''venue1'' \<mapsto> flit A 45, ''venue3'' \<mapsto> flit A 30, ''venue5'' \<mapsto> flit A 60]\<rparr>"

definition user2 :: "'f arith \<Rightarrow> 'f User" where
  "user2 A = \<lparr>u_id = ''user2'', u_name = ''Sam Rivera'',
               u_latitude = flit A 40.7589, u_longitude = flit A (- 73.9851),
               interests = [''coffee'', ''books'', ''quiet'', ''study''],
               preferred_price_range = ''budget'',
               viewing_history = [''venue1'' \<mapsto> flit A 120, ''venue2'' \<mapsto> flit A 90]\<rparr>"

definition user3 :: "'f arith \<Rightarrow> 'f User" where
  "user3 A = \<lparr>u_id = ''user3'', u_name = ''Jordan Kim'',
               u_latitude = flit A 40.7520, u_longitude = flit A (- 73.9900),
               interests = [''music'', ''cocktails'', ''nightlife'', ''dancing''],
               preferred_price_range = ''upscale'',
               viewing_history = [''venue4'' \<mapsto> flit A 80, ''venue6'' \<mapsto> flit A 55]\<rparr>"

definition user4 :: "'f arith \<Rightarrow> 'f User" where
  "user4 A = \<lparr>u_id = ''user4'', u_name = ''Taylor Park'',
               u_latitude = flit A 40.7595, u_longitude = flit A (- 73.9840),
               interests = [''art'', ''coffee'', ''photography'', ''indie''],
               preferred_price_range = ''moderate'',
               viewing_history = [''venue1'' \<mapsto> flit A 35, ''venue5'' \<mapsto> flit A 90]\<rparr>"

definition user5 :: "'f arith \<Rightarrow> 'f User" where
  "user5 A = \<lparr>u_id = ''user5'', u_name = ''Morgan Lee'',
               u_latitude = flit A 40.7560, u_longitude = flit A (- 73.9870),
               interests = [''food'', ''wine'', ''culture'', ''art''],
               preferred_price_range = ''upscale'',
               viewing_history = [''venue3'' \<mapsto> flit A 65, ''venue5'' \<mapsto> flit A 40]\<rparr>"

definition USERS :: "'f arith \<Rightarrow> 'f User list" where
  "USERS A = [user1 A, user2 A, user3 A, user4 A, user5 A]"

definition venue1 :: "'f arith \<Rightarrow> 'f Venue" where
  "venue1 A = \<lparr>v_id = ''venue1'', v_name = ''Brew & Pages Cafe'', category = ''cafe'',
                v_latitude = flit A 40.7585, v_longitude = flit A (- 73.9850),
                price_range = ''moderate'',
                tags = [''coffee'', ''books'', ''wifi'', ''quiet'', ''art''],
                description = ''Cozy cafe with art gallery and book exchange''\<rparr>"

definition venue2 :: "'f arith \<Rightarrow> 'f Venue" where
  "venue2 A = \<lparr>v_id = ''venue2'', v_name = ''Study Spot Coffee'', category = ''cafe'',
                v_latitude = flit A 40.7575, v_longitude = flit A (- 73.9845),
                price_range = ''budget'',
                tags = [''coffee'', ''study'', ''wifi'', ''quiet''],
                description = ''Student-friendly cafe with long hours''\<rparr>"

definition venue3 :: "'f arith \<Rightarrow> 'f Venue" where
  "venue3 A = \<lparr>v_id = ''venue3'', v_name = ''The Velvet Room'', category = ''bar'',
                v_latitude = flit A 40.7530, v_longitude = flit A (- 73.9910),
                price_range = ''upscale'',
                tags = [''cocktails'', ''music'', ''nightlife'', ''lounge''],
                description = ''Upscale cocktail lounge with live jazz''\<rparr>"

definition venue4 :: "'f arith \<Rightarrow> 'f Venue" where
  "venue4 A = \<lparr>v_id = ''venue4'', v_name = ''Electric Pulse'', category = ''club'',
                v_latitude = flit A 40.7510, v_longitude = flit A (- 73.9920),
                price_range = ''upscale'',
                tags = [''dancing'', ''nightlife'', ''music'', ''DJ''],
                description = ''High-energy nightclub with top DJs''\<rparr>"

definition venue5 :: "'f arith \<Rightarrow> 'f Venue" where
  "venue5 A = \<lparr>v_id = ''venue5'', v_name = ''Indie Corner Gallery'', category = ''gallery'',
                v_latitude = flit A 40.7590, v_longitude = flit A (- 73.9860),
                price_range = ''moderate'',
                tags = [''art'', ''indie'', ''photography'', ''events''],
                description = ''Independent art gallery with monthly exhibitions''\<rparr>"

definition venue6 :: "'f arith \<Rightarrow> 'f Venue" where
  "venue6 A = \<lparr>v_id = ''venue6'', v_name = ''Midnight Groove'', category = ''club'',
                v_latitude = flit A 40.7515, v_longitude = flit A (- 73.9905),
                price_range = ''upscale'',
                tags = [''dancing'', ''music'', ''nightlife'', ''cocktails''],
                description = ''Trendy club with mixed music and VIP sections''\<rparr>"

definition VENUES :: "'f arith \<Rightarrow> 'f Venue list" where
  "VENUES A = [venue1 A, venue2 A, venue3 A, venue4 A, venue5 A, venue6 A]"


section \<open>The quantities of the specification\<close>

text \<open>
  The quantities the specification names, each with the float operations in the order the
  source applies them: a user's interest signal for a venue (accumulated from the int 0),
  the users that pass the threshold 0.3 (the candidates), the compatibility scores above
  40 (the retained scores), the sum of the four weighted components (a component that
  does not apply is not added), and the reasons that precede the one about compatible
  friends; and the weighted sum of line 44, for a distance and the two tier ordinals. The
  keys of \<^verbatim>\<open>price_ranges\<close> are the three price tiers.
\<close>

definition valid_tier :: "string \<Rightarrow> bool" where
  "valid_tier s = (s = ''budget'' \<or> s = ''moderate'' \<or> s = ''upscale'')"

definition compatibility_formula ::
  "'f arith \<Rightarrow> 'f User \<Rightarrow> 'f User \<Rightarrow> 'f \<Rightarrow> int \<Rightarrow> int \<Rightarrow> 'f" where
  "compatibility_formula A u1 u2 distance p1 p2 =
     fmul A (fadd A (fadd A (fmul A (flit A 0.4)
                               (idiv A (int (card (set (interests u1) \<inter> set (interests u2))))
                                       (int (max (length (interests u1))
                                                 (length (interests u2))))))
                            (fmul A (flit A 0.3)
                               (py_max0 A (fsub A (flit A 1) (fdiv A distance (flit A 5))))))
                    (fmul A (flit A 0.3)
                       (py_max0 A (fsub A (flit A 1)
                          (idiv A \<bar>p1 - p2\<bar> 2)))))
            (flit A 100)"

definition interest_signal :: "'f arith \<Rightarrow> 'f Venue \<Rightarrow> 'f User \<Rightarrow> 'f" where
  "interest_signal A vn other =
     fadd A (case viewing_history other (v_id vn) of
               Some t \<Rightarrow> fadd A (flit A 0) (fdiv A t (flit A 60))
             | None \<Rightarrow> flit A 0)
            (idiv A (int (card (set (interests other) \<inter> set (tags vn))))
                    (int (length (tags vn))))"

definition is_candidate :: "'f arith \<Rightarrow> 'f User \<Rightarrow> 'f Venue \<Rightarrow> 'f User \<Rightarrow> bool" where
  "is_candidate A user vn other =
     (u_id other \<noteq> u_id user \<and> fless A (flit A 0.3) (interest_signal A vn other))"

definition candidates :: "'f arith \<Rightarrow> 'f User \<Rightarrow> 'f Venue \<Rightarrow> 'f User list \<Rightarrow> 'f User list" where
  "candidates A user vn all_users = filter (is_candidate A user vn) all_users"

definition retained :: "'f arith \<Rightarrow> 'f User \<Rightarrow> 'f User list \<Rightarrow> 'f CompatibilityScore list" where
  "retained A user cands =
     concat (map (\<lambda>other. case calculate_user_compatibility A user other of
                             Inr c \<Rightarrow> if fless A (flit A 40) (c_score c) then [c] else []
                           | Inl e \<Rightarrow> []) cands)"

definition proximity_component :: "'f arith \<Rightarrow> 'f \<Rightarrow> 'f" where
  "proximity_component A d =
     fmul A (flit A 25) (py_max0 A (fsub A (flit A 1) (fdiv A d (flit A 3))))"

definition interest_component :: "'f arith \<Rightarrow> 'f User \<Rightarrow> 'f Venue \<Rightarrow> 'f" where
  "interest_component A user vn =
     fmul A (flit A 35)
       (if interests user = [] then flit A 0
        else idiv A (int (card (set (interests user) \<inter> set (tags vn))))
                    (int (length (interests user))))"

definition implicit_component :: "'f arith \<Rightarrow> 'f \<Rightarrow> 'f" where
  "implicit_component A seconds_viewed =
     fmul A (flit A 25) (py_min1 A (fdiv A seconds_viewed (flit A 60)))"

definition venue_score_formula :: "'f arith \<Rightarrow> 'f User \<Rightarrow> 'f Venue \<Rightarrow> 'f \<Rightarrow> 'f" where
  "venue_score_formula A user vn d =
     (let s1 = fadd A (flit A 0) (proximity_component A d);
          s2 = fadd A s1 (interest_component A user vn);
          s3 = (if price_range vn = preferred_price_range user
                then fadd A s2 (flit A 15) else s2)
      in case viewing_history user (v_id vn) of
           Some t \<Rightarrow> fadd A s3 (implicit_component A t)
         | None \<Rightarrow> s3)"

definition base_reasons :: "'f arith \<Rightarrow> 'f User \<Rightarrow> 'f Venue \<Rightarrow> 'f \<Rightarrow> 'f reason list" where
  "base_reasons A user vn d =
     (if fless A d (flit A 1) then [OnlyKmAway d] else [])
     @ (if set (interests user) \<inter> set (tags vn) \<noteq> {}
        then [MatchesInterests (set (interests user) \<inter> set (tags vn))] else [])
     @ (if price_range vn = preferred_price_range user then [FitsBudget (price_range vn)] else [])
     @ (case viewing_history user (v_id vn) of Some t \<Rightarrow> [SpentViewing t] | None \<Rightarrow> [])"

section \<open>Ranges of floats\<close>

text \<open>
  A score ``in \<open>[0, 100]\<close>'' is a float \<open>x\<close> with \<^verbatim>\<open>0 <= x <= 100\<close>. The source compares with
  \<^verbatim>\<open><\<close> only, so \<^verbatim>\<open>x <= y\<close> is read as: the same float, or \<^verbatim>\<open>x < y\<close>. A NaN is in no
  range.
\<close>

definition fle :: "'f arith \<Rightarrow> 'f \<Rightarrow> 'f \<Rightarrow> bool" where
  "fle A x y = (x = y \<or> fless A x y)"

definition between :: "'f arith \<Rightarrow> real \<Rightarrow> real \<Rightarrow> 'f \<Rightarrow> bool" where
  "between A lo hi x = (fle A (flit A lo) x \<and> fle A x (flit A hi))"

text \<open>
  Properties of an arithmetic that round-to-nearest doubles have, stated on the ranges
  that the scores need and no further (so that no infinity, NaN or negative zero falls
  under them).

  The order: \<^verbatim>\<open><\<close> is irreflexive and transitive, literals are ordered as the numbers they
  denote, and a float above 0 that is not above 1 is 1 or below 1.
\<close>

definition float_order :: "'f arith \<Rightarrow> bool" where
  "float_order A =
     ((\<forall>x. \<not> fless A x x)
      \<and> (\<forall>x y z. fless A x y \<longrightarrow> fless A y z \<longrightarrow> fless A x z)
      \<and> (\<forall>a b. a \<le> b \<longrightarrow> fle A (flit A a) (flit A b))
      \<and> (\<forall>x. fless A (flit A 0) x \<longrightarrow> \<not> fless A (flit A 1) x \<longrightarrow> fle A x (flit A 1)))"

text \<open>
  Exact results: the sum of two naturals up to 100, a product with 0 or 1, and
  \<^verbatim>\<open>0.4 + 0.3 + 0.3\<close>, which does not exceed 1.
\<close>

definition exact_results :: "'f arith \<Rightarrow> bool" where
  "exact_results A =
     ((\<forall>a b :: nat. a + b \<le> 100 \<longrightarrow>
          fadd A (flit A (real a)) (flit A (real b)) = flit A (real (a + b)))
      \<and> (\<forall>c. between A 0 100 c \<longrightarrow> fmul A c (flit A 0) = flit A 0 \<and> fmul A c (flit A 1) = c)
      \<and> fmul A (flit A 0) (flit A 100) = flit A 0
      \<and> fmul A (flit A 1) (flit A 100) = flit A 100
      \<and> fle A (fadd A (fadd A (flit A 0.4) (flit A 0.3)) (flit A 0.3)) (flit A 1))"

text \<open>
  Monotone rounding: \<^verbatim>\<open>+\<close> on \<open>[0, 100]\<close> and \<^verbatim>\<open>*\<close> of a factor in \<open>[0, 1]\<close> by one in
  \<open>[0, 100]\<close> are monotone, the quotient of two ints \<open>0 \<le> m \<le> n\<close> is in \<open>[0, 1]\<close>, a seconds
  count that is 0 or more stays so when divided by 60, and \<^verbatim>\<open>round(x, 2)\<close> keeps
  \<open>[0, 100]\<close>.
\<close>

definition monotone_rounding :: "'f arith \<Rightarrow> bool" where
  "monotone_rounding A =
     ((\<forall>x x' y y'. between A 0 100 x \<longrightarrow> between A 0 100 x' \<longrightarrow>
                    between A 0 100 y \<longrightarrow> between A 0 100 y' \<longrightarrow>
                    fle A x x' \<longrightarrow> fle A y y' \<longrightarrow> fle A (fadd A x y) (fadd A x' y'))
      \<and> (\<forall>c x y. between A 0 100 c \<longrightarrow> between A 0 1 x \<longrightarrow> between A 0 1 y \<longrightarrow> fle A x y \<longrightarrow>
                    fle A (fmul A c x) (fmul A c y) \<and> fle A (fmul A x c) (fmul A y c))
      \<and> (\<forall>m n. 0 \<le> m \<longrightarrow> m \<le> n \<longrightarrow> 0 < n \<longrightarrow> between A 0 1 (idiv A m n))
      \<and> (\<forall>t. fle A (flit A 0) t \<longrightarrow> fle A (flit A 0) (fdiv A t (flit A 60)))
      \<and> (\<forall>x. between A 0 100 x \<longrightarrow> between A 0 100 (fround A x 2)))"

text \<open>
  Signs, for floats that are not below 0 (a NaN among them): 1 minus such a float is not
  above 1; its product with, and its quotient by, a literal \<open>c \<ge> 1\<close> is not below 0;
  and the angle \<^verbatim>\<open>atan2(sqrt(a), sqrt(1 - a))\<close> of line 16 is not below 0.
\<close>

definition sign_rules :: "'f arith \<Rightarrow> bool" where
  "sign_rules A =
     ((\<forall>y. \<not> fless A y (flit A 0) \<longrightarrow> \<not> fless A (flit A 1) (fsub A (flit A 1) y))
      \<and> (\<forall>c t. 1 \<le> c \<longrightarrow> \<not> fless A t (flit A 0) \<longrightarrow>
                 \<not> fless A (fmul A (flit A c) t) (flit A 0)
                 \<and> \<not> fless A (fdiv A t (flit A c)) (flit A 0))
      \<and> (\<forall>a sa sb. fsqrt A a = Inr sa \<longrightarrow> fsqrt A (fsub A (flit A 1) a) = Inr sb \<longrightarrow>
                    \<not> fless A (fatan2 A sa sb) (flit A 0)))"

definition ordered_arith :: "'f arith \<Rightarrow> bool" where
  "ordered_arith A =
     (float_order A \<and> exact_results A \<and> monotone_rounding A \<and> sign_rules A)"

section \<open>The arithmetic of the real numbers\<close>

text \<open>
  One arithmetic: the real numbers, with the mathematical functions that the float
  operations approximate and \<^verbatim>\<open>round\<close> to the nearest hundredth, ties to even. It has no
  rounding error, no NaN and no infinity, so it is not the arithmetic of the program, and
  no property of the program is derived from it. It serves to show that the hypotheses of
  the theorems below can be met, and to run the model on concrete inputs.
\<close>

definition round_half_even :: "real \<Rightarrow> int" where
  "round_half_even y =
     (let f = \<lfloor>y\<rfloor> in
      if y - of_int f < 1/2 then f
      else if 1/2 < y - of_int f then f + 1
      else if even f then f else f + 1)"

definition py_round :: "real \<Rightarrow> nat \<Rightarrow> real" where
  "py_round x ndigits = of_int (round_half_even (x * 10 ^ ndigits)) / 10 ^ ndigits"

definition radians :: "real \<Rightarrow> real" where
  "radians x = x * pi / 180"

definition math_sqrt :: "real \<Rightarrow> py_error + real" where
  "math_sqrt x = (if x < 0 then Inl ValueError else Inr (sqrt x))"

definition atan2 :: "real \<Rightarrow> real \<Rightarrow> real" where
  "atan2 y x =
     (if 0 < x then arctan (y / x)
      else if x < 0 then (if 0 \<le> y then arctan (y / x) + pi else arctan (y / x) - pi)
      else if 0 < y then pi / 2
      else if y < 0 then - (pi / 2)
      else 0)"

text \<open>The term \<open>a\<close> of line 15 over the reals.\<close>

definition haversine :: "real \<Rightarrow> real \<Rightarrow> real \<Rightarrow> real \<Rightarrow> real" where
  "haversine lat1 lon1 lat2 lon2 =
     (sin (radians (lat2 - lat1) / 2))\<^sup>2
     + cos (radians lat1) * cos (radians lat2) * (sin (radians (lon2 - lon1) / 2))\<^sup>2"

definition exact :: "real arith" where
  "exact = \<lparr>flit = (\<lambda>x. x),
            fadd = (\<lambda>x y. x + y),
            fsub = (\<lambda>x y. x - y),
            fmul = (\<lambda>x y. x * y),
            fdiv = (\<lambda>x y. x / y),
            idiv = (\<lambda>m n. real_of_int m / real_of_int n),
            fsquare = (\<lambda>x. x\<^sup>2),
            fless = (\<lambda>x y. x < y),
            fsin = (\<lambda>x. Inr (sin x)),
            fcos = (\<lambda>x. Inr (cos x)),
            fsqrt = math_sqrt,
            fatan2 = atan2,
            fradians = radians,
            fround = py_round\<rparr>"

section \<open>Properties\<close>

subsection \<open>The price table\<close>

lemma valid_tier_lookup: "valid_tier s \<Longrightarrow> \<exists>p. price_ranges s = Some p"
  unfolding valid_tier_def price_ranges_def by auto

lemma invalid_tier_lookup: "\<not> valid_tier s \<Longrightarrow> price_ranges s = None"
  unfolding valid_tier_def price_ranges_def by simp

lemma valid_tier_iff: "valid_tier s = (\<exists>p. price_ranges s = Some p)"
  unfolding valid_tier_def price_ranges_def by (auto split: if_splits)

subsection \<open>Slices and the sort\<close>

lemma py_slice_to_subset: "set (py_slice_to xs n) \<subseteq> set xs"
  by (auto simp: py_slice_to_def dest: in_set_takeD)

lemma py_slice_to_nonneg: "0 \<le> n \<Longrightarrow> py_slice_to xs n = take (nat n) xs"
  by (simp add: py_slice_to_def)

lemma py_slice_to_length:
  "length (py_slice_to xs n) =
     (if 0 \<le> n then min (nat n) (length xs) else length xs - nat (- n))"
  by (simp add: py_slice_to_def min.commute)

lemma insort_desc_length [simp]: "length (insort_desc A f x ys) = Suc (length ys)"
  by (induction ys) simp_all

lemma insort_desc_mset [simp]: "mset (insort_desc A f x ys) = add_mset x (mset ys)"
  by (induction ys) simp_all

lemma insort_desc_set [simp]: "set (insort_desc A f x ys) = insert x (set ys)"
  by (induction ys) auto

lemma sort_desc_length [simp]: "length (sort_desc A f xs) = length xs"
  unfolding sort_desc_def by (induction xs) simp_all

lemma sort_desc_mset [simp]: "mset (sort_desc A f xs) = mset xs"
  unfolding sort_desc_def by (induction xs) simp_all

lemma sort_desc_set [simp]: "set (sort_desc A f xs) = set xs"
  using sort_desc_mset [of A f xs] by (metis set_mset_mset)

lemma sort_desc_Nil_iff [simp]: "(sort_desc A f xs = []) = (xs = [])"
  using sort_desc_length [of A f xs] by (metis length_0_conv)

text \<open>
  Where \<^verbatim>\<open><\<close> on the keys is a strict weak order (no key is NaN), the sorted list is
  descending: no element has a key below that of a later one.
\<close>

lemma insort_desc_sorted:
  assumes tr: "\<And>a b c. \<not> fless A a b \<Longrightarrow> \<not> fless A b c \<Longrightarrow> \<not> fless A a c"
    and asym: "\<And>a b. fless A a b \<Longrightarrow> \<not> fless A b a"
    and s: "sorted_wrt (\<lambda>x y. \<not> fless A (f x) (f y)) ys"
  shows "sorted_wrt (\<lambda>x y. \<not> fless A (f x) (f y)) (insort_desc A f x ys)"
  using s
proof (induction ys)
  case Nil
  show ?case by simp
next
  case (Cons y ys)
  show ?case
  proof (cases "fless A (f x) (f y)")
    case True
    have "\<not> fless A (f y) (f z)" if "z \<in> set (insort_desc A f x ys)" for z
    proof -
      from that have "z = x \<or> z \<in> set ys" by simp
      then show ?thesis using True asym Cons.prems by auto
    qed
    then show ?thesis using True Cons by simp
  next
    case False
    have "\<not> fless A (f x) (f z)" if "z \<in> set ys" for z
      using tr [OF False] Cons.prems that by auto
    then show ?thesis using False Cons.prems by simp
  qed
qed

lemma sort_desc_sorted:
  assumes tr: "\<And>a b c. \<not> fless A a b \<Longrightarrow> \<not> fless A b c \<Longrightarrow> \<not> fless A a c"
    and asym: "\<And>a b. fless A a b \<Longrightarrow> \<not> fless A b a"
  shows "sorted_wrt (\<lambda>x y. \<not> fless A (f x) (f y)) (sort_desc A f xs)"
  unfolding sort_desc_def
proof (induction xs)
  case Nil
  show ?case by simp
next
  case (Cons x xs)
  show ?case using insort_desc_sorted [OF tr asym Cons] by simp
qed

subsection \<open>The compatibility scorer\<close>

lemma max_length_zero: "(max (length xs) (length ys) = 0) = (xs = [] \<and> ys = [])"
  by (cases xs; cases ys) simp_all

lemma compat_zero_division:
  "interests u1 = [] \<Longrightarrow> interests u2 = [] \<Longrightarrow>
   calculate_user_compatibility A u1 u2 = Inl ZeroDivisionError"
  by (simp add: calculate_user_compatibility_def)

lemma compat_distance_error:
  assumes "interests u1 \<noteq> [] \<or> interests u2 \<noteq> []"
    and "calculate_distance A (u_latitude u1) (u_longitude u1)
           (u_latitude u2) (u_longitude u2) = Inl e"
  shows "calculate_user_compatibility A u1 u2 = Inl e"
proof -
  from assms(1) have "max (length (interests u1)) (length (interests u2)) \<noteq> 0"
    unfolding max_length_zero by blast
  then show ?thesis
    unfolding calculate_user_compatibility_def Let_def assms(2) sum.case by (rule if_not_P)
qed

lemma compat_unfold:
  assumes d: "calculate_distance A (u_latitude u1) (u_longitude u1)
              (u_latitude u2) (u_longitude u2) = Inr d"
  shows "calculate_user_compatibility A u1 u2 =
     (if interests u1 = [] \<and> interests u2 = [] then Inl ZeroDivisionError
      else case price_ranges (preferred_price_range u1) of
             None \<Rightarrow> Inl KeyError
           | Some p1 \<Rightarrow>
              (case price_ranges (preferred_price_range u2) of
                 None \<Rightarrow> Inl KeyError
               | Some p2 \<Rightarrow>
                  Inr \<lparr>user_id = u_id u2, user_name = u_name u2,
                       c_score = fround A (compatibility_formula A u1 u2 d p1 p2) 2,
                       shared_interests = set (interests u1) \<inter> set (interests u2),
                       distance_km = fround A d 2\<rparr>))"
  unfolding calculate_user_compatibility_def Let_def d max_length_zero sum.case
    compatibility_formula_def
  by (rule refl)

lemma compat_key_error:
  assumes n: "interests u1 \<noteq> [] \<or> interests u2 \<noteq> []"
    and d: "calculate_distance A (u_latitude u1) (u_longitude u1)
              (u_latitude u2) (u_longitude u2) = Inr d"
    and t: "\<not> valid_tier (preferred_price_range u1) \<or> \<not> valid_tier (preferred_price_range u2)"
  shows "calculate_user_compatibility A u1 u2 = Inl KeyError"
proof -
  from n have n': "\<not> (interests u1 = [] \<and> interests u2 = [])"
    by blast
  show ?thesis
  proof (cases "valid_tier (preferred_price_range u1)")
    case False
    then have "price_ranges (preferred_price_range u1) = None"
      by (rule invalid_tier_lookup)
    then show ?thesis unfolding compat_unfold [OF d] using n' by simp
  next
    case True
    with t have "price_ranges (preferred_price_range u2) = None"
      using invalid_tier_lookup by blast
    moreover obtain p1 where "price_ranges (preferred_price_range u1) = Some p1"
      using valid_tier_lookup [OF True] by blast
    ultimately show ?thesis unfolding compat_unfold [OF d] using n' by simp
  qed
qed

lemma compat_value:
  assumes n: "interests u1 \<noteq> [] \<or> interests u2 \<noteq> []"
    and p1: "price_ranges (preferred_price_range u1) = Some p1"
    and p2: "price_ranges (preferred_price_range u2) = Some p2"
    and d: "calculate_distance A (u_latitude u1) (u_longitude u1)
              (u_latitude u2) (u_longitude u2) = Inr d"
  shows "calculate_user_compatibility A u1 u2 =
           Inr \<lparr>user_id = u_id u2, user_name = u_name u2,
                c_score = fround A (compatibility_formula A u1 u2 d p1 p2) 2,
                shared_interests = set (interests u1) \<inter> set (interests u2),
                distance_km = fround A d 2\<rparr>"
proof -
  from n have "\<not> (interests u1 = [] \<and> interests u2 = [])" by blast
  then show ?thesis
    unfolding compat_unfold [OF d] p1 p2 by simp
qed

lemma compat_returns:
  assumes r: "calculate_user_compatibility A u1 u2 = Inr c"
  shows "(interests u1 \<noteq> [] \<or> interests u2 \<noteq> [])
         \<and> (\<exists>d p1 p2. calculate_distance A (u_latitude u1) (u_longitude u1)
                         (u_latitude u2) (u_longitude u2) = Inr d
                      \<and> price_ranges (preferred_price_range u1) = Some p1
                      \<and> price_ranges (preferred_price_range u2) = Some p2
                      \<and> c = \<lparr>user_id = u_id u2, user_name = u_name u2,
                             c_score = fround A (compatibility_formula A u1 u2 d p1 p2) 2,
                             shared_interests = set (interests u1) \<inter> set (interests u2),
                             distance_km = fround A d 2\<rparr>)"
proof -
  have n: "interests u1 \<noteq> [] \<or> interests u2 \<noteq> []"
    using r compat_zero_division [of u1 u2 A] by auto
  show ?thesis
  proof (cases "calculate_distance A (u_latitude u1) (u_longitude u1)
                  (u_latitude u2) (u_longitude u2)")
    case (Inl e)
    then show ?thesis using compat_distance_error [OF n Inl] r by simp
  next
    case (Inr d)
    show ?thesis
    proof (cases "valid_tier (preferred_price_range u1) \<and> valid_tier (preferred_price_range u2)")
      case False
      then show ?thesis using compat_key_error [OF n Inr] r by auto
    next
      case True
      then obtain p1 p2 where p: "price_ranges (preferred_price_range u1) = Some p1"
        "price_ranges (preferred_price_range u2) = Some p2"
        using valid_tier_lookup by blast
      from r compat_value [OF n p Inr]
      have "c = \<lparr>user_id = u_id u2, user_name = u_name u2,
                 c_score = fround A (compatibility_formula A u1 u2 d p1 p2) 2,
                 shared_interests = set (interests u1) \<inter> set (interests u2),
                 distance_km = fround A d 2\<rparr>"
        by simp
      with n Inr p show ?thesis by blast
    qed
  qed
qed

subsection \<open>The venue recommender\<close>

lemma collect_interested_step:
  assumes "tags vn \<noteq> []"
  shows "collect_interested A user vn (other # rest) acc =
     (if is_candidate A user vn other
      then (case calculate_user_compatibility A user other of
              Inl e \<Rightarrow> Inl e
            | Inr c \<Rightarrow> collect_interested A user vn rest
                         (if fless A (flit A 40) (c_score c) then acc @ [c] else acc))
      else collect_interested A user vn rest acc)"
  using assms
  by (simp add: Let_def is_candidate_def interest_signal_def split: option.splits sum.splits)

lemma collect_interested_tagless:
  assumes "tags vn = []"
  shows "collect_interested A user vn us acc =
           (if \<exists>other\<in>set us. u_id other \<noteq> u_id user then Inl ZeroDivisionError else Inr acc)"
  using assms by (induction us arbitrary: acc) (simp_all add: Let_def)

lemma candidates_Cons:
  "candidates A user vn (other # rest) =
     (if is_candidate A user vn other
      then other # candidates A user vn rest else candidates A user vn rest)"
  by (simp add: candidates_def)

lemma candidates_Nil: "candidates A user vn [] = []"
  by (simp add: candidates_def)

lemma retained_Nil: "retained A user [] = []"
  by (simp add: retained_def)

lemma retained_Cons:
  "retained A user (other # rest) =
     (case calculate_user_compatibility A user other of
        Inr c \<Rightarrow> if fless A (flit A 40) (c_score c) then [c] else []
      | Inl e \<Rightarrow> []) @ retained A user rest"
  by (simp add: retained_def)

lemma collect_interested_returns:
  assumes t: "tags vn \<noteq> []"
    and ok: "\<forall>other\<in>set (candidates A user vn us).
               \<exists>c. calculate_user_compatibility A user other = Inr c"
  shows "collect_interested A user vn us acc =
           Inr (acc @ retained A user (candidates A user vn us))"
  using ok
proof (induction us arbitrary: acc)
  case Nil
  show ?case by (simp add: candidates_Nil retained_Nil)
next
  case (Cons other rest)
  show ?case
  proof (cases "is_candidate A user vn other")
    case True
    then have c: "candidates A user vn (other # rest) = other # candidates A user vn rest"
      by (simp add: candidates_Cons)
    from Cons.prems c obtain c0 where c0: "calculate_user_compatibility A user other = Inr c0"
      by auto
    from Cons.prems c
    have "\<forall>x\<in>set (candidates A user vn rest). \<exists>c. calculate_user_compatibility A user x = Inr c"
      by simp
    then have ih: "collect_interested A user vn rest acc' =
                     Inr (acc' @ retained A user (candidates A user vn rest))" for acc'
      by (rule Cons.IH)
    show ?thesis
      unfolding collect_interested_step [OF t] c retained_Cons using True c0 ih by simp
  next
    case False
    then have c: "candidates A user vn (other # rest) = candidates A user vn rest"
      by (simp add: candidates_Cons)
    from Cons.prems c
    have "\<forall>x\<in>set (candidates A user vn rest). \<exists>c. calculate_user_compatibility A user x = Inr c"
      by simp
    then have ih: "collect_interested A user vn rest acc =
                     Inr (acc @ retained A user (candidates A user vn rest))"
      by (rule Cons.IH)
    show ?thesis
      unfolding collect_interested_step [OF t] c using False ih by simp
  qed
qed



lemma score_venue_distance_error:
  assumes "calculate_distance A (u_latitude user) (u_longitude user)
             (v_latitude vn) (v_longitude vn) = Inl e"
  shows "score_venue A user all_users vn = Inl e"
  unfolding score_venue_def Let_def assms by simp

lemma score_venue_unfold:
  assumes d: "calculate_distance A (u_latitude user) (u_longitude user)
                (v_latitude vn) (v_longitude vn) = Inr d"
  shows "score_venue A user all_users vn =
     (case collect_interested A user vn all_users [] of
        Inl e \<Rightarrow> Inl e
      | Inr found \<Rightarrow>
          Inr \<lparr>venue = vn,
               r_score = fround A (venue_score_formula A user vn d) 2,
               reasons = base_reasons A user vn d
                         @ (if found = [] then [] else [CompatibleFriends (min 3 (length found))]),
               interested_users = take 5 (sort_desc A c_score found)\<rparr>)"
proof (cases "collect_interested A user vn all_users []")
  case (Inl e)
  then show ?thesis unfolding score_venue_def Let_def d by simp
next
  case (Inr found)
  show ?thesis
    unfolding score_venue_def Let_def d Inr sum.case venue_score_formula_def base_reasons_def
      proximity_component_def interest_component_def implicit_component_def
    by (simp split: option.splits add: min.commute)
qed

lemma score_venues_acc:
  "score_venues A user all_users vs acc =
     (case score_venues A user all_users vs [] of Inl e \<Rightarrow> Inl e | Inr rs \<Rightarrow> Inr (acc @ rs))"
proof (induction vs arbitrary: acc)
  case Nil
  show ?case by simp
next
  case (Cons vn rest)
  show ?case
  proof (cases "score_venue A user all_users vn")
    case (Inl e)
    then show ?thesis by simp
  next
    case (Inr r)
    have a: "score_venues A user all_users rest (acc @ [r]) =
               (case score_venues A user all_users rest [] of
                  Inl e \<Rightarrow> Inl e | Inr rs \<Rightarrow> Inr ((acc @ [r]) @ rs))"
      by (rule Cons.IH)
    have b: "score_venues A user all_users rest ([] @ [r]) =
               (case score_venues A user all_users rest [] of
                  Inl e \<Rightarrow> Inl e | Inr rs \<Rightarrow> Inr (([] @ [r]) @ rs))"
      by (rule Cons.IH)
    show ?thesis
      using Inr a b by (simp split: sum.splits)
  qed
qed

lemma score_venues_Cons:
  "score_venues A user all_users (vn # rest) [] =
     (case score_venue A user all_users vn of
        Inl e \<Rightarrow> Inl e
      | Inr r \<Rightarrow> (case score_venues A user all_users rest [] of
                    Inl e \<Rightarrow> Inl e | Inr rs \<Rightarrow> Inr (r # rs)))"
proof (cases "score_venue A user all_users vn")
  case (Inl e)
  then show ?thesis by simp
next
  case (Inr r)
  show ?thesis
    using Inr score_venues_acc [of A user all_users rest "[r]"] by (simp split: sum.splits)
qed

lemma score_venues_Inr_iff:
  "(score_venues A user all_users vs [] = Inr rs) =
     list_all2 (\<lambda>vn r. score_venue A user all_users vn = Inr r) vs rs"
proof (induction vs arbitrary: rs)
  case Nil
  show ?case by auto
next
  case (Cons vn rest)
  show ?case
  proof (cases "score_venue A user all_users vn")
    case (Inl e)
    then show ?thesis
      unfolding score_venues_Cons by (auto simp: list_all2_Cons1)
  next
    case r: (Inr r)
    show ?thesis
    proof (cases "score_venues A user all_users rest []")
      case (Inl e)
      then have "\<not> list_all2 (\<lambda>vn r. score_venue A user all_users vn = Inr r) rest rs'" for rs'
        using Cons.IH [of rs'] by simp
      then show ?thesis
        unfolding score_venues_Cons using r Inl by (auto simp: list_all2_Cons1)
    next
      case (Inr rs0)
      then have "list_all2 (\<lambda>vn r. score_venue A user all_users vn = Inr r) rest rs' = (rs' = rs0)"
        for rs'
        using Cons.IH [of rs'] by auto
      then show ?thesis
        unfolding score_venues_Cons using r Inr by (auto simp: list_all2_Cons1)
    qed
  qed
qed

lemma recommend_venues_Inr:
  assumes "recommend_venues A user vs all_users n = Inr out"
  shows "\<exists>rs. list_all2 (\<lambda>vn r. score_venue A user all_users vn = Inr r) vs rs
             \<and> out = py_slice_to (sort_desc A r_score rs) n"
  using assms unfolding recommend_venues_def
  by (auto split: sum.splits simp: score_venues_Inr_iff)

lemma recommend_venues_member:
  assumes "recommend_venues A user vs all_users n = Inr out" and "r \<in> set out"
  shows "\<exists>vn\<in>set vs. score_venue A user all_users vn = Inr r"
proof -
  from assms(1) obtain rs
    where l: "list_all2 (\<lambda>vn r. score_venue A user all_users vn = Inr r) vs rs"
      and o: "out = py_slice_to (sort_desc A r_score rs) n"
    using recommend_venues_Inr by blast
  from assms(2) o have "r \<in> set rs"
    using py_slice_to_subset [of "sort_desc A r_score rs" n] by auto
  then obtain i where i: "i < length rs" "rs ! i = r"
    by (auto simp: in_set_conv_nth)
  from l i have "score_venue A user all_users (vs ! i) = Inr r" "i < length vs"
    by (auto simp: list_all2_conv_all_nth)
  then show ?thesis by (metis nth_mem)
qed

lemma score_venues_total:
  assumes "\<forall>vn\<in>set vs. \<exists>r. score_venue A user all_users vn = Inr r"
  shows "\<exists>rs. score_venues A user all_users vs [] = Inr rs"
  using assms
proof (induction vs)
  case Nil
  show ?case by simp
next
  case (Cons vn rest)
  then obtain r rs where "score_venue A user all_users vn = Inr r"
    and "score_venues A user all_users rest [] = Inr rs"
    by auto
  then show ?case unfolding score_venues_Cons by simp
qed

lemma recommend_venues_total:
  assumes "\<forall>vn\<in>set vs. \<exists>r. score_venue A user all_users vn = Inr r"
  shows "\<exists>out. recommend_venues A user vs all_users n = Inr out"
proof -
  obtain rs where "score_venues A user all_users vs [] = Inr rs"
    using score_venues_total [OF assms] by blast
  then show ?thesis unfolding recommend_venues_def by simp
qed

lemma recommend_venues_first_error:
  assumes "score_venue A user all_users vn = Inl e"
  shows "recommend_venues A user (vn # rest) all_users n = Inl e"
  unfolding recommend_venues_def score_venues_Cons assms by simp

lemma recommend_venues_slice:
  assumes "recommend_venues A user vs all_users m = Inr full"
  shows "\<exists>rs. length rs = length vs
             \<and> (\<forall>n. recommend_venues A user vs all_users n
                       = Inr (py_slice_to (sort_desc A r_score rs) n))"
proof -
  from assms obtain rs where rs: "score_venues A user all_users vs [] = Inr rs"
    unfolding recommend_venues_def by (auto split: sum.splits)
  then have "list_all2 (\<lambda>vn r. score_venue A user all_users vn = Inr r) vs rs"
    unfolding score_venues_Inr_iff .
  then have "length rs = length vs"
    by (simp add: list_all2_lengthD)
  moreover have "recommend_venues A user vs all_users n
                   = Inr (py_slice_to (sort_desc A r_score rs) n)" for n
    unfolding recommend_venues_def rs by simp
  ultimately show ?thesis by blast
qed

subsection \<open>The people recommender\<close>

lemma collect_compatibilities_error:
  assumes "other \<in> set us" and "u_id other \<noteq> u_id user"
    and "calculate_user_compatibility A user other = Inl e"
  shows "\<exists>e'. collect_compatibilities A user us acc = Inl e'"
  using assms(1)
proof (induction us arbitrary: acc)
  case Nil
  then show ?case by simp
next
  case (Cons x rest)
  show ?case
  proof (cases "u_id x \<noteq> u_id user")
    case False
    with Cons.prems assms(2) have "other \<in> set rest" by auto
    then have "\<exists>e'. collect_compatibilities A user rest acc = Inl e'" by (rule Cons.IH)
    then show ?thesis using False by simp
  next
    case True
    show ?thesis
    proof (cases "calculate_user_compatibility A user x")
      case (Inl e1)
      then show ?thesis using True by simp
    next
      case (Inr c)
      with Cons.prems assms(3) have "other \<in> set rest" by auto
      then have "\<exists>e'. collect_compatibilities A user rest acc' = Inl e'" for acc'
        by (rule Cons.IH)
      then show ?thesis using True Inr by simp
    qed
  qed
qed

subsection \<open>Symmetry of the distance\<close>

text \<open>
  Two properties of an arithmetic, both of IEEE doubles: \<^verbatim>\<open>*\<close> commutes, and the squared
  sine of half a difference in radians is the same for \<^verbatim>\<open>x - y\<close> and \<^verbatim>\<open>y - x\<close> (the two
  differences are each other's negation, \<^verbatim>\<open>math.radians\<close>, \<^verbatim>\<open>/ 2\<close> and \<^verbatim>\<open>math.sin\<close> are
  odd, and squaring drops the sign). Under them the term \<open>a\<close> of line 15, and with it the
  distance, is the same in both directions whenever it is computed.
\<close>

lemma hav_a_swap:
  assumes comm: "\<forall>x y. fmul A x y = fmul A y x"
    and odd: "\<forall>x y. map_sum id (fsquare A) (fsin A (fdiv A (fradians A (fsub A x y)) (flit A 2)))
                   = map_sum id (fsquare A) (fsin A (fdiv A (fradians A (fsub A y x)) (flit A 2)))"
    and r: "hav_a A lat1 lon1 lat2 lon2 = Inr a"
  shows "hav_a A lat2 lon2 lat1 lon1 = Inr a"
proof -
  from r obtain s1 c1 c2 s2
    where s1: "fsin A (fdiv A (fradians A (fsub A lat2 lat1)) (flit A 2)) = Inr s1"
      and c1: "fcos A (fradians A lat1) = Inr c1"
      and c2: "fcos A (fradians A lat2) = Inr c2"
      and s2: "fsin A (fdiv A (fradians A (fsub A lon2 lon1)) (flit A 2)) = Inr s2"
      and a: "a = fadd A (fsquare A s1) (fmul A (fmul A c1 c2) (fsquare A s2))"
    unfolding hav_a_def Let_def by (auto split: sum.splits)
  from odd have "map_sum id (fsquare A) (fsin A (fdiv A (fradians A (fsub A lat1 lat2)) (flit A 2)))
                   = map_sum id (fsquare A) (fsin A (fdiv A (fradians A (fsub A lat2 lat1)) (flit A 2)))"
    by blast
  then obtain t1 where t1: "fsin A (fdiv A (fradians A (fsub A lat1 lat2)) (flit A 2)) = Inr t1"
    and q1: "fsquare A t1 = fsquare A s1"
    unfolding s1 by (cases "fsin A (fdiv A (fradians A (fsub A lat1 lat2)) (flit A 2))") auto
  from odd have "map_sum id (fsquare A) (fsin A (fdiv A (fradians A (fsub A lon1 lon2)) (flit A 2)))
                   = map_sum id (fsquare A) (fsin A (fdiv A (fradians A (fsub A lon2 lon1)) (flit A 2)))"
    by blast
  then obtain t2 where t2: "fsin A (fdiv A (fradians A (fsub A lon1 lon2)) (flit A 2)) = Inr t2"
    and q2: "fsquare A t2 = fsquare A s2"
    unfolding s2 by (cases "fsin A (fdiv A (fradians A (fsub A lon1 lon2)) (flit A 2))") auto
  from comm have cc: "fmul A c2 c1 = fmul A c1 c2" by blast
  show ?thesis
    unfolding hav_a_def Let_def t1 t2 c1 c2 sum.case q1 q2 cc a by (rule refl)
qed

lemma calculate_distance_swap:
  assumes comm: "\<forall>x y. fmul A x y = fmul A y x"
    and odd: "\<forall>x y. map_sum id (fsquare A) (fsin A (fdiv A (fradians A (fsub A x y)) (flit A 2)))
                   = map_sum id (fsquare A) (fsin A (fdiv A (fradians A (fsub A y x)) (flit A 2)))"
    and r: "calculate_distance A lat1 lon1 lat2 lon2 = Inr d"
  shows "calculate_distance A lat2 lon2 lat1 lon1 = Inr d"
proof -
  from r obtain a where a: "hav_a A lat1 lon1 lat2 lon2 = Inr a"
    unfolding calculate_distance_def Let_def by (auto split: sum.splits)
  have a': "hav_a A lat2 lon2 lat1 lon1 = Inr a"
    using comm odd a by (rule hav_a_swap)
  from r show ?thesis
    unfolding calculate_distance_def Let_def a a' .
qed

subsection \<open>The arithmetic of the real numbers\<close>

lemma exact_sel [simp]:
  "flit exact x = x"
  "fadd exact x y = x + y"
  "fsub exact x y = x - y"
  "fmul exact x y = x * y"
  "fdiv exact x y = x / y"
  "idiv exact m n = real_of_int m / real_of_int n"
  "fsquare exact x = x\<^sup>2"
  "fless exact x y = (x < y)"
  "fsin exact x = Inr (sin x)"
  "fcos exact x = Inr (cos x)"
  "fsqrt exact = math_sqrt"
  "fatan2 exact = atan2"
  "fradians exact = radians"
  "fround exact = py_round"
  by (simp_all add: exact_def)

lemma exact_comm: "\<forall>x y. fmul exact x y = fmul exact y x"
  by simp

lemma exact_odd:
  "\<forall>x y. map_sum id (fsquare exact) (fsin exact (fdiv exact (fradians exact (fsub exact x y)) (flit exact 2)))
        = map_sum id (fsquare exact) (fsin exact (fdiv exact (fradians exact (fsub exact y x)) (flit exact 2)))"
proof (intro allI)
  fix x y :: real
  have "radians (x - y) / 2 = - (radians (y - x) / 2)"
    by (simp add: radians_def field_simps)
  then have "(sin (radians (x - y) / 2))\<^sup>2 = (sin (radians (y - x) / 2))\<^sup>2"
    by simp
  then show "map_sum id (fsquare exact) (fsin exact (fdiv exact (fradians exact (fsub exact x y)) (flit exact 2)))
        = map_sum id (fsquare exact) (fsin exact (fdiv exact (fradians exact (fsub exact y x)) (flit exact 2)))"
    by simp
qed




lemma hav_a_exact: "hav_a exact lat1 lon1 lat2 lon2 = Inr (haversine lat1 lon1 lat2 lon2)"
  by (simp add: hav_a_def haversine_def Let_def)

lemma radians_diff: "radians (x - y) = radians x - radians y"
  by (simp add: radians_def field_simps)

lemma sin_sq_le_one: "(sin (t::real))\<^sup>2 \<le> 1"
  using sin_cos_squared_add [of t] zero_le_power2 [of "cos t"] by linarith

lemma haversine_alt:
  "2 * haversine lat1 lon1 lat2 lon2 =
     1 - (1 - (sin (radians (lon2 - lon1) / 2))\<^sup>2) * cos (radians lat2 - radians lat1)
       + (sin (radians (lon2 - lon1) / 2))\<^sup>2 * cos (radians lat1 + radians lat2)"
proof -
  define s where "s = (sin (radians (lon2 - lon1) / 2))\<^sup>2"
  define c where "c = cos (radians lat2 - radians lat1)"
  define k where "k = cos (radians lat1 + radians lat2)"
  have tw: "2 * ((radians lat2 - radians lat1) / 2) = radians lat2 - radians lat1"
    by simp
  have h: "2 * (sin ((radians lat2 - radians lat1) / 2))\<^sup>2 = 1 - c"
    unfolding c_def using cos_double_sin [of "(radians lat2 - radians lat1) / 2"]
    unfolding tw by linarith
  have "cos (radians lat1) * cos (radians lat2)
          = (cos (radians lat1 - radians lat2) + k) / 2"
    unfolding k_def by (rule cos_times_cos)
  moreover have "cos (radians lat1 - radians lat2) = c"
    unfolding c_def using cos_minus [of "radians lat2 - radians lat1"] by simp
  ultimately have cc: "2 * (cos (radians lat1) * cos (radians lat2)) = c + k"
    by simp
  have "2 * haversine lat1 lon1 lat2 lon2
          = 2 * (sin ((radians lat2 - radians lat1) / 2))\<^sup>2
            + 2 * (cos (radians lat1) * cos (radians lat2)) * s"
    unfolding haversine_def radians_diff s_def by (simp add: algebra_simps)
  also have "\<dots> = (1 - c) + (c + k) * s"
    unfolding h cc by simp
  also have "\<dots> = 1 - (1 - s) * c + s * k"
    by (simp add: algebra_simps)
  finally show ?thesis
    unfolding s_def c_def k_def .
qed

lemma haversine_range: "0 \<le> haversine lat1 lon1 lat2 lon2 \<and> haversine lat1 lon1 lat2 lon2 \<le> 1"
proof -
  define s where "s = (sin (radians (lon2 - lon1) / 2))\<^sup>2"
  define c where "c = cos (radians lat2 - radians lat1)"
  define k where "k = cos (radians lat1 + radians lat2)"
  have s0: "0 \<le> s" by (simp add: s_def)
  have s1: "s \<le> 1" unfolding s_def by (rule sin_sq_le_one)
  have cb: "\<bar>c\<bar> \<le> 1" by (simp add: c_def)
  have kb: "\<bar>k\<bar> \<le> 1" by (simp add: k_def)
  have a: "2 * haversine lat1 lon1 lat2 lon2 = 1 - (1 - s) * c + s * k"
    unfolding s_def c_def k_def by (rule haversine_alt)
  have m1: "\<bar>(1 - s) * c\<bar> \<le> 1 - s"
    using s1 cb by (simp add: abs_mult mult_left_le)
  have m2: "\<bar>s * k\<bar> \<le> s"
    using s0 kb by (simp add: abs_mult mult_left_le)
  from a m1 m2 show ?thesis by linarith
qed

lemma atan2_nonneg: "0 \<le> y \<Longrightarrow> 0 \<le> x \<Longrightarrow> 0 \<le> atan2 y x"
  by (simp add: atan2_def)

lemma calculate_distance_exact:
  "calculate_distance exact lat1 lon1 lat2 lon2 =
     Inr (6371 * (2 * atan2 (sqrt (haversine lat1 lon1 lat2 lon2))
                            (sqrt (1 - haversine lat1 lon1 lat2 lon2))))"
  using haversine_range [of lat1 lon1 lat2 lon2]
  by (simp add: calculate_distance_def hav_a_exact math_sqrt_def Let_def)



lemma calculate_distance_exact_total:
  "\<exists>d. calculate_distance exact lat1 lon1 lat2 lon2 = Inr d \<and> 0 \<le> d"
  using haversine_range [of lat1 lon1 lat2 lon2]
  by (simp add: calculate_distance_exact atan2_nonneg)

lemma compat_exact_returns:
  assumes "interests u1 \<noteq> [] \<or> interests u2 \<noteq> []"
    and "valid_tier (preferred_price_range u1)" and "valid_tier (preferred_price_range u2)"
  shows "\<exists>c. calculate_user_compatibility exact u1 u2 = Inr c"
proof -
  obtain d where d: "calculate_distance exact (u_latitude u1) (u_longitude u1)
                       (u_latitude u2) (u_longitude u2) = Inr d"
    using calculate_distance_exact_total by blast
  obtain p1 p2 where "price_ranges (preferred_price_range u1) = Some p1"
    and "price_ranges (preferred_price_range u2) = Some p2"
    using valid_tier_lookup assms(2,3) by blast
  then show ?thesis using compat_value [OF assms(1) _ _ d] by simp
qed

lemma score_venue_exact_returns:
  assumes t: "tags vn \<noteq> []"
    and ok: "\<forall>x\<in>set all_users. u_id x \<noteq> u_id user \<longrightarrow>
               (interests user \<noteq> [] \<or> interests x \<noteq> [])
               \<and> valid_tier (preferred_price_range user) \<and> valid_tier (preferred_price_range x)"
  shows "\<exists>r. score_venue exact user all_users vn = Inr r"
proof -
  obtain d where d: "calculate_distance exact (u_latitude user) (u_longitude user)
                       (v_latitude vn) (v_longitude vn) = Inr d"
    using calculate_distance_exact_total by blast
  have "\<forall>x\<in>set (candidates exact user vn all_users).
          \<exists>c. calculate_user_compatibility exact user x = Inr c"
  proof
    fix x assume "x \<in> set (candidates exact user vn all_users)"
    then have "x \<in> set all_users" "u_id x \<noteq> u_id user"
      by (simp_all add: candidates_def is_candidate_def)
    with ok show "\<exists>c. calculate_user_compatibility exact user x = Inr c"
      using compat_exact_returns by blast
  qed
  then have "collect_interested exact user vn all_users [] =
               Inr ([] @ retained exact user (candidates exact user vn all_users))"
    by (rule collect_interested_returns [OF t])
  then show ?thesis
    unfolding score_venue_unfold [OF d] by simp
qed

subsection \<open>Rounding and bounds over the reals\<close>

lemma round_half_even_ge: "of_int k \<le> y \<Longrightarrow> k \<le> round_half_even y"
proof -
  assume "of_int k \<le> y"
  then have "k \<le> \<lfloor>y\<rfloor>" by (simp add: le_floor_iff)
  then show ?thesis by (simp add: round_half_even_def Let_def)
qed

lemma round_half_even_le: "y \<le> of_int k \<Longrightarrow> round_half_even y \<le> k"
proof (cases "y = of_int k")
  case True
  then show ?thesis by (simp add: round_half_even_def Let_def)
next
  case False
  assume "y \<le> of_int k"
  with False have "y < of_int k" by simp
  then have "\<lfloor>y\<rfloor> < k" by (simp add: floor_less_iff)
  then show ?thesis by (simp add: round_half_even_def Let_def)
qed

lemma py_round_ge: "real_of_int k / 100 \<le> x \<Longrightarrow> real_of_int k / 100 \<le> py_round x 2"
proof -
  assume "real_of_int k / 100 \<le> x"
  then have "of_int k \<le> x * 10 ^ 2" by simp
  then have "k \<le> round_half_even (x * 10 ^ 2)" by (rule round_half_even_ge)
  then have "real_of_int k \<le> of_int (round_half_even (x * 10 ^ 2))" by simp
  then show ?thesis unfolding py_round_def by (simp add: divide_right_mono)
qed

lemma py_round_le: "x \<le> real_of_int k / 100 \<Longrightarrow> py_round x 2 \<le> real_of_int k / 100"
proof -
  assume "x \<le> real_of_int k / 100"
  then have "x * 10 ^ 2 \<le> of_int k" by simp
  then have "round_half_even (x * 10 ^ 2) \<le> k" by (rule round_half_even_le)
  then have "real_of_int (round_half_even (x * 10 ^ 2)) \<le> of_int k" by simp
  then show ?thesis unfolding py_round_def by (simp add: divide_right_mono)
qed

lemma py_round_0_100: "0 \<le> x \<Longrightarrow> x \<le> 100 \<Longrightarrow> 0 \<le> py_round x 2 \<and> py_round x 2 \<le> 100"
  using py_round_ge [of 0 x] py_round_le [of x 10000] by simp







text \<open>
  C2: a pair of users whose interest lists are both empty. The division of line 32 has
  no guard: in every arithmetic the call raises ZeroDivisionError, before the distance
  and the price tiers are looked at.
\<close>

theorem compatibility_both_empty_raises:
  "calculate_user_compatibility A ((user1 A)\<lparr>interests := []\<rparr>) ((user2 A)\<lparr>interests := []\<rparr>)
     = Inl ZeroDivisionError"
  by (rule compat_zero_division) simp_all

text \<open>
  C8: a user with no interests (a valid price tier, ordinary coordinates) compared with
  itself. The call is not well-defined: the same unguarded division of line 32 raises
  ZeroDivisionError.
\<close>

theorem self_compatibility_no_interests_raises:
  "calculate_user_compatibility A ((user1 A)\<lparr>interests := []\<rparr>) ((user1 A)\<lparr>interests := []\<rparr>)
     = Inl ZeroDivisionError"
  by (rule compat_zero_division) simp_all


text \<open>
  C5, amended: for a cap \<open>n \<ge> 0\<close>, whenever \<^verbatim>\<open>recommend_venues(u, V, U, len(V))\<close>
  returns, \<^verbatim>\<open>recommend_venues(u, V, U, n)\<close> returns too, with exactly \<open>min n |V|\<close>
  elements, which are the first \<open>n\<close> of the former. This holds in every arithmetic.
\<close>

theorem recommend_venues_truncation:
  assumes n: "0 \<le> n"
    and full: "recommend_venues A user vs all_users (int (length vs)) = Inr full"
  shows "\<exists>out. recommend_venues A user vs all_users n = Inr out
              \<and> length out = min (nat n) (length vs)
              \<and> out = take (nat n) full"
proof -
  from full obtain rs where len: "length rs = length vs"
    and sl: "\<And>k. recommend_venues A user vs all_users k
                    = Inr (py_slice_to (sort_desc A r_score rs) k)"
    using recommend_venues_slice by blast
  from full sl [of "int (length vs)"] len
  have f: "full = sort_desc A r_score rs"
    by (simp add: py_slice_to_def)
  have "recommend_venues A user vs all_users n = Inr (take (nat n) full)"
    unfolding sl [of n] f using n by (simp add: py_slice_to_def)
  moreover have "length (take (nat n) full) = min (nat n) (length vs)"
    unfolding f using len by (simp add: min.commute)
  ultimately show ?thesis by blast
qed

lemma mock_users_well_formed:
  assumes "x \<in> set (USERS A)"
  shows "interests x \<noteq> [] \<and> valid_tier (preferred_price_range x)"
  using assms
  by (auto simp: USERS_def user1_def user2_def user3_def user4_def user5_def valid_tier_def)

lemma mock_venues_tagged:
  assumes "vn \<in> set (VENUES A)"
  shows "tags vn \<noteq> []"
  using assms
  by (auto simp: VENUES_def venue1_def venue2_def venue3_def venue4_def venue5_def venue6_def)

theorem recommend_venues_truncation_witness:
  "\<exists>full out. recommend_venues exact (user1 exact) (VENUES exact) (USERS exact)
                  (int (length (VENUES exact))) = Inr full
             \<and> recommend_venues exact (user1 exact) (VENUES exact) (USERS exact) 5 = Inr out
             \<and> length out = 5 \<and> out = take 5 full"
proof -
  have u1: "user1 exact \<in> set (USERS exact)" by (simp add: USERS_def)
  have wf: "\<forall>vn\<in>set (VENUES exact). \<exists>r. score_venue exact (user1 exact) (USERS exact) vn = Inr r"
  proof
    fix vn assume vn: "vn \<in> set (VENUES exact)"
    then have t: "tags vn \<noteq> []" by (rule mock_venues_tagged)
    have "\<forall>x\<in>set (USERS exact). u_id x \<noteq> u_id (user1 exact) \<longrightarrow>
               (interests (user1 exact) \<noteq> [] \<or> interests x \<noteq> [])
               \<and> valid_tier (preferred_price_range (user1 exact))
               \<and> valid_tier (preferred_price_range x)"
      using mock_users_well_formed [OF u1] mock_users_well_formed by blast
    with t show "\<exists>r. score_venue exact (user1 exact) (USERS exact) vn = Inr r"
      by (rule score_venue_exact_returns)
  qed
  obtain full where full: "recommend_venues exact (user1 exact) (VENUES exact) (USERS exact)
                             (int (length (VENUES exact))) = Inr full"
    using recommend_venues_total [OF wf] by blast
  have l: "length (VENUES exact) = 6" by (simp add: VENUES_def)
  have n: "(0::int) \<le> 5" by simp
  show ?thesis
    using full recommend_venues_truncation [OF n full] l by auto
qed

text \<open>
  C5 as stated fails for a negative cap: \<^verbatim>\<open>recommendations[:-1]\<close> drops the last element,
  so two venues and \<open>n = -1\<close> give one recommendation, not \<open>min n |V|\<close>.
\<close>

theorem recommend_venues_negative_cap_counterexample:
  "map_sum id length (recommend_venues exact (user1 exact) [venue1 exact, venue2 exact] [] (- 1))
     = Inr 1
   \<and> min (- 1) (int (length [venue1 exact, venue2 exact])) \<noteq> 1"
proof -
  have wf: "\<forall>vn\<in>set [venue1 exact, venue2 exact]. \<exists>r. score_venue exact (user1 exact) [] vn = Inr r"
  proof
    fix vn :: "real Venue" assume "vn \<in> set [venue1 exact, venue2 exact]"
    then have t: "tags vn \<noteq> []" by (auto simp: venue1_def venue2_def)
    then show "\<exists>r. score_venue exact (user1 exact) [] vn = Inr r"
      by (rule score_venue_exact_returns) simp
  qed
  obtain full where "recommend_venues exact (user1 exact) [venue1 exact, venue2 exact] [] 0 = Inr full"
    using recommend_venues_total [OF wf] by blast
  then obtain rs where len: "length rs = length [venue1 exact, venue2 exact]"
    and sl: "\<And>k. recommend_venues exact (user1 exact) [venue1 exact, venue2 exact] [] k
                    = Inr (py_slice_to (sort_desc exact r_score rs) k)"
    using recommend_venues_slice by blast
  show ?thesis
    unfolding sl [of "- 1"] using len by (simp add: py_slice_to_length)
qed

text \<open>
  C6: a venue without tags, scored for a user when the list of users holds somebody else.
  Once the distance of line 74 is computed, the division by \<^verbatim>\<open>len(venue.tags)\<close> of line
  112 raises ZeroDivisionError for the first other user, and \<^verbatim>\<open>recommend_venues\<close> raises
  it (here with the venue first in the list).
\<close>

theorem tagless_venue_raises:
  assumes t: "tags vn = []"
    and o: "\<exists>other\<in>set all_users. u_id other \<noteq> u_id user"
    and d: "calculate_distance A (u_latitude user) (u_longitude user)
              (v_latitude vn) (v_longitude vn) = Inr d"
  shows "recommend_venues A user (vn # rest) all_users top_n = Inl ZeroDivisionError"
proof -
  have "collect_interested A user vn all_users [] = Inl ZeroDivisionError"
    unfolding collect_interested_tagless [OF t] using o by simp
  then have "score_venue A user all_users vn = Inl ZeroDivisionError"
    unfolding score_venue_unfold [OF d] by simp
  then show ?thesis by (rule recommend_venues_first_error)
qed

theorem tagless_venue_raises_witness:
  "recommend_venues exact (user1 exact) [(venue1 exact)\<lparr>tags := []\<rparr>] (USERS exact) 5
     = Inl ZeroDivisionError"
proof -
  have t: "tags ((venue1 exact)\<lparr>tags := []\<rparr>) = []" by simp
  have o: "\<exists>other\<in>set (USERS exact). u_id other \<noteq> u_id (user1 exact)"
    by (simp add: USERS_def user1_def user2_def)
  obtain d where d: "calculate_distance exact (u_latitude (user1 exact)) (u_longitude (user1 exact))
              (v_latitude ((venue1 exact)\<lparr>tags := []\<rparr>))
              (v_longitude ((venue1 exact)\<lparr>tags := []\<rparr>)) = Inr d"
    using calculate_distance_exact_total by blast
  show ?thesis
    using tagless_venue_raises [OF t o d] .
qed

text \<open>
  C10: in an arithmetic where \<^verbatim>\<open>*\<close> commutes and the squared half-angle sine does not
  depend on the order of the subtraction, whenever
  \<^verbatim>\<open>calculate_user_compatibility(u1, u2)\<close> returns, so does
  \<^verbatim>\<open>calculate_user_compatibility(u2, u1)\<close>, with the same score and the same set of
  shared interests.
\<close>

theorem compatibility_score_symmetric:
  assumes comm: "\<forall>x y. fmul A x y = fmul A y x"
    and odd: "\<forall>x y. map_sum id (fsquare A) (fsin A (fdiv A (fradians A (fsub A x y)) (flit A 2)))
                   = map_sum id (fsquare A) (fsin A (fdiv A (fradians A (fsub A y x)) (flit A 2)))"
    and r: "calculate_user_compatibility A u1 u2 = Inr c12"
  shows "\<exists>c21. calculate_user_compatibility A u2 u1 = Inr c21
              \<and> c_score c21 = c_score c12
              \<and> shared_interests c21 = shared_interests c12"
proof -
  from compat_returns [OF r] obtain d p1 p2
    where n: "interests u1 \<noteq> [] \<or> interests u2 \<noteq> []"
      and d: "calculate_distance A (u_latitude u1) (u_longitude u1)
                (u_latitude u2) (u_longitude u2) = Inr d"
      and p1: "price_ranges (preferred_price_range u1) = Some p1"
      and p2: "price_ranges (preferred_price_range u2) = Some p2"
      and c: "c12 = \<lparr>user_id = u_id u2, user_name = u_name u2,
                     c_score = fround A (compatibility_formula A u1 u2 d p1 p2) 2,
                     shared_interests = set (interests u1) \<inter> set (interests u2),
                     distance_km = fround A d 2\<rparr>"
    by blast
  have d': "calculate_distance A (u_latitude u2) (u_longitude u2)
              (u_latitude u1) (u_longitude u1) = Inr d"
    using comm odd d by (rule calculate_distance_swap)
  from n have n': "interests u2 \<noteq> [] \<or> interests u1 \<noteq> []" by blast
  have e1: "set (interests u2) \<inter> set (interests u1) = set (interests u1) \<inter> set (interests u2)"
    by (rule Int_commute)
  have e2: "max (length (interests u2)) (length (interests u1))
              = max (length (interests u1)) (length (interests u2))"
    by (rule max.commute)
  have e3: "\<bar>p2 - p1\<bar> = \<bar>p1 - p2\<bar>" by (rule abs_minus_commute)
  have f: "compatibility_formula A u2 u1 d p2 p1 = compatibility_formula A u1 u2 d p1 p2"
    unfolding compatibility_formula_def e1 e2 e3 by (rule refl)
  show ?thesis
    unfolding compat_value [OF n' p2 p1 d'] c f e1 by simp
qed

theorem compatibility_score_symmetric_witness:
  "\<exists>c12 c21. calculate_user_compatibility exact (user1 exact) (user2 exact) = Inr c12
            \<and> calculate_user_compatibility exact (user2 exact) (user1 exact) = Inr c21
            \<and> c_score c21 = c_score c12
            \<and> shared_interests c21 = shared_interests c12"
proof -
  have "interests (user1 exact) \<noteq> [] \<or> interests (user2 exact) \<noteq> []"
    by (simp add: user1_def)
  moreover have "valid_tier (preferred_price_range (user1 exact))"
    by (simp add: user1_def valid_tier_def)
  moreover have "valid_tier (preferred_price_range (user2 exact))"
    by (simp add: user2_def valid_tier_def)
  ultimately obtain c12
    where r: "calculate_user_compatibility exact (user1 exact) (user2 exact) = Inr c12"
    using compat_exact_returns by blast
  show ?thesis
    using r compatibility_score_symmetric [OF exact_comm exact_odd r] by blast
qed

lemma candidates_iff:
  "other \<in> set (candidates A user vn all_users) =
     (other \<in> set all_users \<and> u_id other \<noteq> u_id user
      \<and> fless A (flit A 0.3) (interest_signal A vn other))"
  by (auto simp: candidates_def is_candidate_def)

lemma retained_iff:
  "c \<in> set (retained A user cands) =
     (\<exists>other\<in>set cands. calculate_user_compatibility A user other = Inr c
                         \<and> fless A (flit A 40) (c_score c))"
proof
  assume "c \<in> set (retained A user cands)"
  then show "\<exists>other\<in>set cands. calculate_user_compatibility A user other = Inr c
                         \<and> fless A (flit A 40) (c_score c)"
    by (auto simp: retained_def split: sum.splits if_splits)
next
  assume "\<exists>other\<in>set cands. calculate_user_compatibility A user other = Inr c
                         \<and> fless A (flit A 40) (c_score c)"
  then obtain other where "other \<in> set cands"
    "calculate_user_compatibility A user other = Inr c" "fless A (flit A 40) (c_score c)"
    by blast
  then show "c \<in> set (retained A user cands)"
    unfolding retained_def by (simp add: bexI [of _ other])
qed








subsection \<open>Scores stay in range\<close>

lemma fle_refl [simp]: "fle A x x"
  by (simp add: fle_def)

lemma fle_trans:
  assumes "float_order A" and "fle A x y" and "fle A y z"
  shows "fle A x z"
  using assms unfolding float_order_def fle_def by blast

lemma fle_not_less:
  assumes "float_order A" and "fle A x y"
  shows "\<not> fless A y x"
  using assms unfolding float_order_def fle_def by blast

lemma fle_lit:
  assumes "float_order A" and "a \<le> b"
  shows "fle A (flit A a) (flit A b)"
  using assms unfolding float_order_def by blast

lemma between_lit:
  assumes "float_order A" and "lo \<le> c" and "c \<le> hi"
  shows "between A lo hi (flit A c)"
  unfolding between_def using fle_lit [OF assms(1)] assms(2,3) by blast

lemma between_weaken:
  assumes fo: "float_order A" and b: "between A lo a x" and le: "a \<le> b"
  shows "between A lo b x"
proof -
  from b have "fle A (flit A lo) x" and "fle A x (flit A a)"
    unfolding between_def by blast+
  moreover have "fle A (flit A a) (flit A b)" using fo le by (rule fle_lit)
  ultimately show ?thesis
    unfolding between_def using fle_trans [OF fo] by blast
qed

lemma between_add:
  fixes a b :: nat
  assumes oa: "ordered_arith A"
    and x: "between A 0 (real a) x" and y: "between A 0 (real b) y"
    and ab: "a + b \<le> 100"
  shows "between A 0 (real (a + b)) (fadd A x y)"
proof -
  from oa have fo: "float_order A" and ex: "exact_results A" and mr: "monotone_rounding A"
    unfolding ordered_arith_def by blast+
  from ab have a100: "real a \<le> 100" and b100: "real b \<le> 100" by simp_all
  have x100: "between A 0 100 x" using fo x a100 by (rule between_weaken)
  have y100: "between A 0 100 y" using fo y b100 by (rule between_weaken)
  have z100: "between A 0 100 (flit A 0)" using fo by (rule between_lit) simp_all
  have la: "between A 0 100 (flit A (real a))" using fo _ a100 by (rule between_lit) simp
  have lb: "between A 0 100 (flit A (real b))" using fo _ b100 by (rule between_lit) simp
  from x y have x0: "fle A (flit A 0) x" and xa: "fle A x (flit A (real a))"
    and y0: "fle A (flit A 0) y" and yb: "fle A y (flit A (real b))"
    unfolding between_def by blast+
  from mr have m1: "\<And>x x' y y'. between A 0 100 x \<Longrightarrow> between A 0 100 x' \<Longrightarrow>
                    between A 0 100 y \<Longrightarrow> between A 0 100 y' \<Longrightarrow>
                    fle A x x' \<Longrightarrow> fle A y y' \<Longrightarrow> fle A (fadd A x y) (fadd A x' y')"
    unfolding monotone_rounding_def by blast
  from ex have e1: "\<And>a b :: nat. a + b \<le> 100 \<Longrightarrow>
          fadd A (flit A (real a)) (flit A (real b)) = flit A (real (a + b))"
    unfolding exact_results_def by blast
  have "fadd A (flit A 0) (flit A 0) = flit A 0"
    using e1 [of 0 0] by simp
  moreover have "fle A (fadd A (flit A 0) (flit A 0)) (fadd A x y)"
    using z100 x100 z100 y100 x0 y0 by (rule m1)
  ultimately have lo: "fle A (flit A 0) (fadd A x y)" by simp
  have "fle A (fadd A x y) (fadd A (flit A (real a)) (flit A (real b)))"
    using x100 la y100 lb xa yb by (rule m1)
  then have hi: "fle A (fadd A x y) (flit A (real (a + b)))"
    using e1 [OF ab] by simp
  from lo hi show ?thesis unfolding between_def by blast
qed

lemma between_scale:
  assumes oa: "ordered_arith A"
    and c: "0 \<le> c" "c \<le> 100" and x: "between A 0 1 x"
  shows "between A 0 c (fmul A (flit A c) x)"
proof -
  from oa have fo: "float_order A" and ex: "exact_results A" and mr: "monotone_rounding A"
    unfolding ordered_arith_def by blast+
  have cb: "between A 0 100 (flit A c)" using fo c by (rule between_lit)
  have z: "between A 0 1 (flit A 0)" using fo by (rule between_lit) simp_all
  have o: "between A 0 1 (flit A 1)" using fo by (rule between_lit) simp_all
  from x have x0: "fle A (flit A 0) x" and x1: "fle A x (flit A 1)"
    unfolding between_def by blast+
  from mr have m2: "\<And>c x y. between A 0 100 c \<Longrightarrow> between A 0 1 x \<Longrightarrow> between A 0 1 y \<Longrightarrow>
                      fle A x y \<Longrightarrow> fle A (fmul A c x) (fmul A c y)"
    unfolding monotone_rounding_def by blast
  from ex cb have e0: "fmul A (flit A c) (flit A 0) = flit A 0"
    and e1: "fmul A (flit A c) (flit A 1) = flit A c"
    unfolding exact_results_def by blast+
  have "fle A (fmul A (flit A c) (flit A 0)) (fmul A (flit A c) x)"
    using cb z x x0 by (rule m2)
  then have lo: "fle A (flit A 0) (fmul A (flit A c) x)" unfolding e0 .
  have "fle A (fmul A (flit A c) x) (fmul A (flit A c) (flit A 1))"
    using cb x o x1 by (rule m2)
  then have hi: "fle A (fmul A (flit A c) x) (flit A c)" unfolding e1 .
  from lo hi show ?thesis unfolding between_def by blast
qed

lemma max0_unit:
  assumes oa: "ordered_arith A" and y: "\<not> fless A y (flit A 0)"
  shows "between A 0 1 (py_max0 A (fsub A (flit A 1) y))"
proof -
  from oa have fo: "float_order A" and sr: "sign_rules A"
    unfolding ordered_arith_def by blast+
  from sr y have n1: "\<not> fless A (flit A 1) (fsub A (flit A 1) y)"
    unfolding sign_rules_def by blast
  show ?thesis
  proof (cases "fless A (flit A 0) (fsub A (flit A 1) y)")
    case True
    with n1 fo have "fle A (fsub A (flit A 1) y) (flit A 1)"
      unfolding float_order_def by blast
    moreover from True have "fle A (flit A 0) (fsub A (flit A 1) y)"
      by (simp add: fle_def)
    ultimately show ?thesis using True by (simp add: py_max0_def between_def)
  next
    case False
    have "between A 0 1 (flit A 0)" using fo by (rule between_lit) simp_all
    then show ?thesis using False by (simp add: py_max0_def)
  qed
qed

lemma min1_unit:
  assumes oa: "ordered_arith A" and t: "fle A (flit A 0) t"
  shows "between A 0 1 (py_min1 A (fdiv A t (flit A 60)))"
proof -
  from oa have fo: "float_order A" and mr: "monotone_rounding A"
    unfolding ordered_arith_def by blast+
  from mr t have q: "fle A (flit A 0) (fdiv A t (flit A 60))"
    unfolding monotone_rounding_def by blast
  show ?thesis
  proof (cases "fless A (fdiv A t (flit A 60)) (flit A 1)")
    case True
    then have "fle A (fdiv A t (flit A 60)) (flit A 1)" by (simp add: fle_def)
    with q True show ?thesis by (simp add: py_min1_def between_def)
  next
    case False
    have "between A 0 1 (flit A 1)" using fo by (rule between_lit) simp_all
    then show ?thesis using False by (simp add: py_min1_def)
  qed
qed

lemma ratio_unit:
  assumes oa: "ordered_arith A" and "m \<le> n" and "0 < n"
  shows "between A 0 1 (idiv A (int m) (int n))"
proof -
  from oa have "monotone_rounding A" unfolding ordered_arith_def by blast
  then have "\<And>m n. 0 \<le> m \<Longrightarrow> m \<le> n \<Longrightarrow> 0 < n \<Longrightarrow> between A 0 1 (idiv A m n)"
    unfolding monotone_rounding_def by blast
  then show ?thesis using assms(2,3) by simp
qed

lemma distance_not_negative:
  assumes oa: "ordered_arith A"
    and d: "calculate_distance A lat1 lon1 lat2 lon2 = Inr d"
  shows "\<not> fless A d (flit A 0)"
proof -
  from oa have sr: "sign_rules A" unfolding ordered_arith_def by blast
  from d obtain a sa sb where sa: "fsqrt A a = Inr sa"
    and sb: "fsqrt A (fsub A (flit A 1) a) = Inr sb"
    and dv: "d = fmul A (flit A 6371) (fmul A (flit A 2) (fatan2 A sa sb))"
    unfolding calculate_distance_def Let_def by (auto split: sum.splits)
  from sr sa sb have "\<not> fless A (fatan2 A sa sb) (flit A 0)"
    unfolding sign_rules_def by blast
  moreover from sr have m: "\<And>c t. 1 \<le> c \<Longrightarrow> \<not> fless A t (flit A 0) \<Longrightarrow>
                 \<not> fless A (fmul A (flit A c) t) (flit A 0)"
    unfolding sign_rules_def by blast
  ultimately have "\<not> fless A (fmul A (flit A 2) (fatan2 A sa sb)) (flit A 0)"
    using m [of 2] by simp
  then show ?thesis unfolding dv using m [of 6371] by simp
qed

lemma proximity_unit:
  assumes oa: "ordered_arith A" and d: "\<not> fless A d (flit A 0)" and c: "1 \<le> c"
  shows "between A 0 1 (py_max0 A (fsub A (flit A 1) (fdiv A d (flit A c))))"
proof -
  from oa have "sign_rules A" unfolding ordered_arith_def by blast
  with d c have "\<not> fless A (fdiv A d (flit A c)) (flit A 0)"
    unfolding sign_rules_def by blast
  with oa show ?thesis by (rule max0_unit)
qed

lemma interest_ratio_le:
  assumes "xs \<noteq> [] \<or> ys \<noteq> []"
  shows "card (set xs \<inter> set ys) \<le> max (length xs) (length ys) \<and> 0 < max (length xs) (length ys)"
proof -
  have "card (set xs \<inter> set ys) \<le> card (set xs)"
    by (simp add: card_mono)
  also have "\<dots> \<le> length xs" by (rule card_length)
  also have "\<dots> \<le> max (length xs) (length ys)" by simp
  finally have le: "card (set xs \<inter> set ys) \<le> max (length xs) (length ys)" .
  from assms have "max (length xs) (length ys) \<noteq> 0"
    unfolding max_length_zero by blast
  then have "0 < max (length xs) (length ys)" by (rule neq0_conv [THEN iffD1])
  with le show ?thesis by blast
qed

lemma price_ranges_range: "price_ranges s = Some p \<Longrightarrow> 1 \<le> p \<and> p \<le> 3"
  by (auto simp: price_ranges_def split: if_splits)

lemma compatibility_formula_range:
  assumes oa: "ordered_arith A"
    and n: "interests u1 \<noteq> [] \<or> interests u2 \<noteq> []"
    and d: "\<not> fless A d (flit A 0)"
    and p1: "1 \<le> p1 \<and> p1 \<le> 3" and p2: "1 \<le> p2 \<and> p2 \<le> (3::int)"
  shows "between A 0 100 (compatibility_formula A u1 u2 d p1 p2)"
proof -
  from oa have fo: "float_order A" and ex: "exact_results A" and mr: "monotone_rounding A"
    unfolding ordered_arith_def by blast+
  define i where "i = idiv A (int (card (set (interests u1) \<inter> set (interests u2))))
                             (int (max (length (interests u1)) (length (interests u2))))"
  define ds where "ds = py_max0 A (fsub A (flit A 1) (fdiv A d (flit A 5)))"
  define ps where "ps = py_max0 A (fsub A (flit A 1) (idiv A \<bar>p1 - p2\<bar> 2))"
  have iu: "between A 0 1 i"
    unfolding i_def using interest_ratio_le [OF n] ratio_unit [OF oa] by blast
  have du: "between A 0 1 ds"
    unfolding ds_def using oa d by (rule proximity_unit) simp
  from p1 p2 have "0 \<le> \<bar>p1 - p2\<bar>" "\<bar>p1 - p2\<bar> \<le> 2" by arith+
  with mr have "between A 0 1 (idiv A \<bar>p1 - p2\<bar> 2)"
    unfolding monotone_rounding_def by simp
  then have "fle A (flit A 0) (idiv A \<bar>p1 - p2\<bar> 2)" unfolding between_def by blast
  with fo have "\<not> fless A (idiv A \<bar>p1 - p2\<bar> 2) (flit A 0)" by (rule fle_not_less)
  with oa have pu: "between A 0 1 ps" unfolding ps_def by (rule max0_unit)
  define a1 where "a1 = fmul A (flit A 0.4) i"
  define a2 where "a2 = fmul A (flit A 0.3) ds"
  define a3 where "a3 = fmul A (flit A 0.3) ps"
  have b1: "between A 0 0.4 a1" unfolding a1_def using oa _ _ iu by (rule between_scale) simp_all
  have b2: "between A 0 0.3 a2" unfolding a2_def using oa _ _ du by (rule between_scale) simp_all
  have b3: "between A 0 0.3 a3" unfolding a3_def using oa _ _ pu by (rule between_scale) simp_all
  from mr have m1: "\<And>x x' y y'. between A 0 100 x \<Longrightarrow> between A 0 100 x' \<Longrightarrow>
                    between A 0 100 y \<Longrightarrow> between A 0 100 y' \<Longrightarrow>
                    fle A x x' \<Longrightarrow> fle A y y' \<Longrightarrow> fle A (fadd A x y) (fadd A x' y')"
    unfolding monotone_rounding_def by blast
  from ex have e1: "\<And>a b :: nat. a + b \<le> 100 \<Longrightarrow>
          fadd A (flit A (real a)) (flit A (real b)) = flit A (real (a + b))"
    unfolding exact_results_def by blast
  have z00: "fadd A (flit A 0) (flit A 0) = flit A 0" using e1 [of 0 0] by simp
  have o11: "fadd A (flit A 1) (flit A 1) = flit A 2" using e1 [of 1 1] by simp
  have lit: "between A 0 100 (flit A c)" if "0 \<le> c" "c \<le> 100" for c
    using fo that by (rule between_lit)
  have w1: "between A 0 100 a1" using fo b1 by (rule between_weaken) simp
  have w2: "between A 0 100 a2" using fo b2 by (rule between_weaken) simp
  have w3: "between A 0 100 a3" using fo b3 by (rule between_weaken) simp
  from b1 b2 b3 have l1: "fle A (flit A 0) a1" and h1: "fle A a1 (flit A 0.4)"
    and l2: "fle A (flit A 0) a2" and h2: "fle A a2 (flit A 0.3)"
    and l3: "fle A (flit A 0) a3" and h3: "fle A a3 (flit A 0.3)"
    unfolding between_def by blast+
  define s1 where "s1 = fadd A a1 a2"
  define t1 where "t1 = fadd A (flit A 0.4) (flit A 0.3)"
  have "fle A (fadd A (flit A 0) (flit A 0)) s1"
    unfolding s1_def using lit [of 0] w1 lit [of 0] w2 l1 l2 by (intro m1) simp_all
  then have s1lo: "fle A (flit A 0) s1" unfolding z00 .
  have s1hi: "fle A s1 t1"
    unfolding s1_def t1_def using w1 lit [of "0.4"] w2 lit [of "0.3"] h1 h2 by (intro m1) simp_all
  have "fle A t1 (fadd A (flit A 1) (flit A 1))"
    unfolding t1_def
    using lit [of "0.4"] lit [of 1] lit [of "0.3"] lit [of 1] fle_lit [OF fo, of "0.4" 1]
      fle_lit [OF fo, of "0.3" 1]
    by (intro m1) simp_all
  then have t1hi: "fle A t1 (flit A 2)" unfolding o11 .
  have "fle A (fadd A (flit A 0) (flit A 0)) t1"
    unfolding t1_def
    using lit [of 0] lit [of "0.4"] lit [of 0] lit [of "0.3"] fle_lit [OF fo, of 0 "0.4"]
      fle_lit [OF fo, of 0 "0.3"]
    by (intro m1) simp_all
  then have t1lo: "fle A (flit A 0) t1" unfolding z00 .
  have t1b: "between A 0 100 t1"
    using fo _ _ by (rule between_weaken [of A 0 2]) (simp_all add: between_def t1lo t1hi)
  have s1b: "between A 0 100 s1"
    unfolding between_def using s1lo fle_trans [OF fo s1hi] t1b unfolding between_def by blast
  define s2 where "s2 = fadd A s1 a3"
  have "fle A (fadd A (flit A 0) (flit A 0)) s2"
    unfolding s2_def using lit [of 0] s1b lit [of 0] w3 s1lo l3 by (intro m1) simp_all
  then have s2lo: "fle A (flit A 0) s2" unfolding z00 .
  have "fle A s2 (fadd A t1 (flit A 0.3))"
    unfolding s2_def using s1b t1b w3 lit [of "0.3"] s1hi h3 by (intro m1) simp_all
  moreover from ex have "fle A (fadd A t1 (flit A 0.3)) (flit A 1)"
    unfolding exact_results_def t1_def by blast
  ultimately have s2hi: "fle A s2 (flit A 1)" using fle_trans [OF fo] by blast
  have s2u: "between A 0 1 s2" unfolding between_def using s2lo s2hi by blast
  from mr have m2: "\<And>c x y. between A 0 100 c \<Longrightarrow> between A 0 1 x \<Longrightarrow> between A 0 1 y \<Longrightarrow>
                      fle A x y \<Longrightarrow> fle A (fmul A x c) (fmul A y c)"
    unfolding monotone_rounding_def by blast
  from ex have e0: "fmul A (flit A 0) (flit A 100) = flit A 0"
    and e100: "fmul A (flit A 1) (flit A 100) = flit A 100"
    unfolding exact_results_def by blast+
  have u0: "between A 0 1 (flit A 0)" using fo by (rule between_lit) simp_all
  have u1: "between A 0 1 (flit A 1)" using fo by (rule between_lit) simp_all
  have "fle A (fmul A (flit A 0) (flit A 100)) (fmul A s2 (flit A 100))"
    using lit [of 100] u0 s2u s2lo by (intro m2) simp_all
  then have flo: "fle A (flit A 0) (fmul A s2 (flit A 100))" unfolding e0 .
  have "fle A (fmul A s2 (flit A 100)) (fmul A (flit A 1) (flit A 100))"
    using lit [of 100] s2u u1 s2hi by (intro m2) simp_all
  then have fhi: "fle A (fmul A s2 (flit A 100)) (flit A 100)" unfolding e100 .
  have "compatibility_formula A u1 u2 d p1 p2 = fmul A s2 (flit A 100)"
    unfolding compatibility_formula_def s2_def s1_def a1_def a2_def a3_def i_def ds_def ps_def
    by (rule refl)
  with flo fhi show ?thesis unfolding between_def by simp
qed

lemma venue_score_formula_range:
  assumes oa: "ordered_arith A"
    and d: "\<not> fless A d (flit A 0)"
    and v: "\<forall>t. viewing_history user (v_id vn) = Some t \<longrightarrow> fle A (flit A 0) t"
  shows "between A 0 100 (venue_score_formula A user vn d)"
proof -
  from oa have fo: "float_order A" unfolding ordered_arith_def by blast
  have pu: "between A 0 1 (py_max0 A (fsub A (flit A 1) (fdiv A d (flit A 3))))"
    using oa d by (rule proximity_unit) simp
  have P: "between A 0 (real 25) (proximity_component A d)"
    unfolding proximity_component_def using between_scale [OF oa _ _ pu, of 25] by simp
  have iu: "between A 0 1
              (if interests user = [] then flit A 0
               else idiv A (int (card (set (interests user) \<inter> set (tags vn))))
                           (int (length (interests user))))"
  proof (cases "interests user = []")
    case True
    then show ?thesis using between_lit [OF fo, of 0 0 1] by simp
  next
    case False
    have "card (set (interests user) \<inter> set (tags vn)) \<le> card (set (interests user))"
      by (simp add: card_mono)
    also have "\<dots> \<le> length (interests user)" by (rule card_length)
    finally have "card (set (interests user) \<inter> set (tags vn)) \<le> length (interests user)" .
    moreover from False have "0 < length (interests user)" by simp
    ultimately show ?thesis using False ratio_unit [OF oa] by simp
  qed
  have I: "between A 0 (real 35) (interest_component A user vn)"
    unfolding interest_component_def using between_scale [OF oa _ _ iu, of 35] by simp
  have z: "between A 0 (real 0) (flit A 0)"
    using between_lit [OF fo, of 0 0 0] by simp
  define s1 where "s1 = fadd A (flit A 0) (proximity_component A d)"
  define s2 where "s2 = fadd A s1 (interest_component A user vn)"
  define s3 where "s3 = (if price_range vn = preferred_price_range user
                         then fadd A s2 (flit A 15) else s2)"
  have b1: "between A 0 (real 25) s1"
    unfolding s1_def using between_add [OF oa z P] by simp
  have b2: "between A 0 (real 60) s2"
    unfolding s2_def using between_add [OF oa b1 I] by simp
  have l15: "between A 0 (real 15) (flit A 15)"
    using between_lit [OF fo, of 0 15 15] by simp
  have b3: "between A 0 (real 75) s3"
  proof (cases "price_range vn = preferred_price_range user")
    case True
    then show ?thesis unfolding s3_def using between_add [OF oa b2 l15] by simp
  next
    case False
    then show ?thesis unfolding s3_def using between_weaken [OF fo b2, of "real 75"] by simp
  qed
  have f: "venue_score_formula A user vn d =
             (case viewing_history user (v_id vn) of
                Some t \<Rightarrow> fadd A s3 (implicit_component A t) | None \<Rightarrow> s3)"
    unfolding venue_score_formula_def Let_def s3_def s2_def s1_def by (rule refl)
  show ?thesis
  proof (cases "viewing_history user (v_id vn)")
    case None
    then show ?thesis unfolding f using between_weaken [OF fo b3, of 100] by simp
  next
    case (Some t)
    with v have "fle A (flit A 0) t" by blast
    with oa have "between A 0 1 (py_min1 A (fdiv A t (flit A 60)))" by (rule min1_unit)
    then have V: "between A 0 (real 25) (implicit_component A t)"
      unfolding implicit_component_def using between_scale [OF oa, of 25] by simp
    show ?thesis unfolding f Some using between_add [OF oa b3 V] by simp
  qed
qed

text \<open>
  C3: in an arithmetic with the order, exactness, monotonicity and sign properties above,
  the score of every \<^verbatim>\<open>CompatibilityScore\<close> that \<^verbatim>\<open>calculate_user_compatibility\<close>
  returns is in \<open>[0, 100]\<close>, and so is the score of every recommendation that
  \<^verbatim>\<open>recommend_venues\<close> returns for a user whose recorded viewing durations are 0 or more.
\<close>

theorem scores_in_range:
  assumes oa: "ordered_arith A"
  shows "(\<forall>u1 u2 c. calculate_user_compatibility A u1 u2 = Inr c \<longrightarrow>
              between A 0 100 (c_score c))
       \<and> (\<forall>user vs us n out r.
              (\<forall>v t. viewing_history user v = Some t \<longrightarrow> fle A (flit A 0) t) \<longrightarrow>
              recommend_venues A user vs us n = Inr out \<longrightarrow> r \<in> set out \<longrightarrow>
              between A 0 100 (r_score r))"
proof (intro conjI allI impI)
  from oa have mr: "monotone_rounding A" unfolding ordered_arith_def by blast
  then have rd: "\<And>x. between A 0 100 x \<Longrightarrow> between A 0 100 (fround A x 2)"
    unfolding monotone_rounding_def by blast
  {
    fix u1 u2 c
    assume r: "calculate_user_compatibility A u1 u2 = Inr c"
    from compat_returns [OF r] obtain d p1 p2
      where n: "interests u1 \<noteq> [] \<or> interests u2 \<noteq> []"
        and d: "calculate_distance A (u_latitude u1) (u_longitude u1)
                  (u_latitude u2) (u_longitude u2) = Inr d"
        and p1: "price_ranges (preferred_price_range u1) = Some p1"
        and p2: "price_ranges (preferred_price_range u2) = Some p2"
        and c: "c = \<lparr>user_id = u_id u2, user_name = u_name u2,
                       c_score = fround A (compatibility_formula A u1 u2 d p1 p2) 2,
                       shared_interests = set (interests u1) \<inter> set (interests u2),
                       distance_km = fround A d 2\<rparr>"
      by blast
    have dn: "\<not> fless A d (flit A 0)" using oa d by (rule distance_not_negative)
    have "between A 0 100 (compatibility_formula A u1 u2 d p1 p2)"
      using oa n dn price_ranges_range [OF p1] price_ranges_range [OF p2]
      by (rule compatibility_formula_range)
    then have "between A 0 100 (fround A (compatibility_formula A u1 u2 d p1 p2) 2)"
      by (rule rd)
    then show "between A 0 100 (c_score c)" unfolding c by simp
  }
  {
    fix user :: "'a User" and vs us n out r
    assume v: "\<forall>v t. viewing_history user v = Some t \<longrightarrow> fle A (flit A 0) t"
      and out: "recommend_venues A user vs us n = Inr out" and r: "r \<in> set out"
    from recommend_venues_member [OF out r] obtain vn
      where sv: "score_venue A user us vn = Inr r"
      by blast
    show "between A 0 100 (r_score r)"
    proof (cases "calculate_distance A (u_latitude user) (u_longitude user)
                    (v_latitude vn) (v_longitude vn)")
      case (Inl e)
      from score_venue_distance_error [OF Inl] sv show ?thesis by simp
    next
      case (Inr d)
      from sv obtain found where "r = \<lparr>venue = vn,
               r_score = fround A (venue_score_formula A user vn d) 2,
               reasons = base_reasons A user vn d
                         @ (if found = [] then [] else [CompatibleFriends (min 3 (length found))]),
               interested_users = take 5 (sort_desc A c_score found)\<rparr>"
        unfolding score_venue_unfold [OF Inr] by (auto split: sum.splits)
      then have rs: "r_score r = fround A (venue_score_formula A user vn d) 2" by simp
      have dn: "\<not> fless A d (flit A 0)" using oa Inr by (rule distance_not_negative)
      from v have "\<forall>t. viewing_history user (v_id vn) = Some t \<longrightarrow> fle A (flit A 0) t"
        by blast
      with oa dn have "between A 0 100 (venue_score_formula A user vn d)"
        by (rule venue_score_formula_range)
      then show ?thesis unfolding rs by (rule rd)
    qed
  }
qed

subsection \<open>The arithmetic of the reals has these properties\<close>

lemma fle_exact [simp]: "fle exact x y = (x \<le> y)"
  by (auto simp: fle_def)

lemma between_exact [simp]: "between exact lo hi x = (lo \<le> x \<and> x \<le> hi)"
  by (simp add: between_def)

lemma float_order_exact: "float_order exact"
  unfolding float_order_def by simp

lemma exact_results_exact: "exact_results exact"
  unfolding exact_results_def by simp

lemma monotone_rounding_exact: "monotone_rounding exact"
  unfolding monotone_rounding_def
proof (intro conjI allI impI)
  fix x x' y y' :: real
  assume "fle exact x x'" "fle exact y y'"
  then show "fle exact (fadd exact x y) (fadd exact x' y')" by simp
next
  fix c x y :: real
  assume "between exact 0 100 c" "fle exact x y"
  then show "fle exact (fmul exact c x) (fmul exact c y)"
    by (simp add: mult_left_mono)
next
  fix c x y :: real
  assume "between exact 0 100 c" "fle exact x y"
  then show "fle exact (fmul exact x c) (fmul exact y c)"
    by (simp add: mult_right_mono)
next
  fix m n :: int
  assume "0 \<le> m" "m \<le> n" "0 < n"
  then show "between exact 0 1 (idiv exact m n)" by simp
next
  fix t :: real
  assume "fle exact (flit exact 0) t"
  then show "fle exact (flit exact 0) (fdiv exact t (flit exact 60))" by simp
next
  fix x :: real
  assume "between exact 0 100 x"
  then show "between exact 0 100 (fround exact x 2)"
    using py_round_0_100 [of x] by simp
qed

lemma sign_rules_exact: "sign_rules exact"
  unfolding sign_rules_def
proof (intro conjI allI impI)
  fix y :: real
  assume "\<not> fless exact y (flit exact 0)"
  then show "\<not> fless exact (flit exact 1) (fsub exact (flit exact 1) y)" by simp
next
  fix c t :: real
  assume "1 \<le> c" "\<not> fless exact t (flit exact 0)"
  then show "\<not> fless exact (fmul exact (flit exact c) t) (flit exact 0)"
    by (simp add: not_less)
next
  fix c t :: real
  assume "1 \<le> c" "\<not> fless exact t (flit exact 0)"
  then show "\<not> fless exact (fdiv exact t (flit exact c)) (flit exact 0)"
    by (simp add: not_less)
next
  fix a sa sb :: real
  assume "fsqrt exact a = Inr sa" "fsqrt exact (fsub exact (flit exact 1) a) = Inr sb"
  then have "0 \<le> sa" "0 \<le> sb"
    by (auto simp: math_sqrt_def split: if_splits)
  then show "\<not> fless exact (fatan2 exact sa sb) (flit exact 0)"
    using atan2_nonneg [of sa sb] by (simp add: not_less)
qed

lemma ordered_arith_exact: "ordered_arith exact"
  unfolding ordered_arith_def
  using float_order_exact exact_results_exact monotone_rounding_exact sign_rules_exact
  by blast

theorem scores_in_range_witness:
  "ordered_arith exact
   \<and> (\<exists>c. calculate_user_compatibility exact (user1 exact) (user2 exact) = Inr c
          \<and> 0 \<le> c_score c \<and> c_score c \<le> 100)
   \<and> (\<exists>out. recommend_venues exact (user1 exact) (VENUES exact) (USERS exact) 5 = Inr out
            \<and> length out = 5 \<and> 0 \<le> r_score (hd out) \<and> r_score (hd out) \<le> 100)"
proof -
  have "interests (user1 exact) \<noteq> [] \<or> interests (user2 exact) \<noteq> []"
    by (simp add: user1_def)
  moreover have "valid_tier (preferred_price_range (user1 exact))"
    by (simp add: user1_def valid_tier_def)
  moreover have "valid_tier (preferred_price_range (user2 exact))"
    by (simp add: user2_def valid_tier_def)
  ultimately obtain c
    where c: "calculate_user_compatibility exact (user1 exact) (user2 exact) = Inr c"
    using compat_exact_returns by blast
  have a: "0 \<le> c_score c \<and> c_score c \<le> 100"
    using scores_in_range [OF ordered_arith_exact] c by simp
  have u1: "user1 exact \<in> set (USERS exact)" by (simp add: USERS_def)
  have wf: "\<forall>vn\<in>set (VENUES exact). \<exists>r. score_venue exact (user1 exact) (USERS exact) vn = Inr r"
  proof
    fix vn assume vn: "vn \<in> set (VENUES exact)"
    then have t: "tags vn \<noteq> []" by (rule mock_venues_tagged)
    have "\<forall>x\<in>set (USERS exact). u_id x \<noteq> u_id (user1 exact) \<longrightarrow>
               (interests (user1 exact) \<noteq> [] \<or> interests x \<noteq> [])
               \<and> valid_tier (preferred_price_range (user1 exact))
               \<and> valid_tier (preferred_price_range x)"
      using mock_users_well_formed [OF u1] mock_users_well_formed by blast
    with t show "\<exists>r. score_venue exact (user1 exact) (USERS exact) vn = Inr r"
      by (rule score_venue_exact_returns)
  qed
  obtain out where out: "recommend_venues exact (user1 exact) (VENUES exact) (USERS exact) 5 = Inr out"
    using recommend_venues_total [OF wf] by blast
  then obtain rs where len: "length rs = length (VENUES exact)"
    and sl: "\<And>k. recommend_venues exact (user1 exact) (VENUES exact) (USERS exact) k
                    = Inr (py_slice_to (sort_desc exact r_score rs) k)"
    using recommend_venues_slice by blast
  from out sl [of 5] have "out = py_slice_to (sort_desc exact r_score rs) 5" by simp
  then have l5: "length out = 5"
    using len by (simp add: py_slice_to_length VENUES_def)
  then have "out \<noteq> []" by auto
  then have m: "hd out \<in> set out" by simp
  have v: "\<forall>v t. viewing_history (user1 exact) v = Some t \<longrightarrow> fle exact (flit exact 0) t"
    by (auto simp: user1_def split: if_splits)
  have b: "0 \<le> r_score (hd out) \<and> r_score (hd out) \<le> 100"
    using scores_in_range [OF ordered_arith_exact] v out m by (simp del: fle_exact)
  from ordered_arith_exact c a out l5 b show ?thesis by blast
qed

end
